theory Spec2Isabelle
  imports Complex_Main
begin

section \<open>Exceptions and time\<close>

text \<open>
  Every exception the two modules raise or catch is a value. \<open>ApiException\<close> carries
  the HTTP status the handlers inspect; \<open>OtherError\<close> stands for any exception of the
  client library that is not an \<open>ApiException\<close> (a connection failure, for instance);
  \<open>ValidationError\<close> is what validating a record of a wrong shape raises.
  Time is the event loop's monotonic clock, read as a real number of seconds.
\<close>

datatype exn =
    ValueError string
  | IndexError string
  | RuntimeError string
  | TimeoutError string
  | AttributeError string
  | TypeError string
  | ApiException int
  | ValidationError string
  | OtherError string

type_synonym time = real

section \<open>utils/rate\_limiter.py\<close>

subsection \<open>The limiter object\<close>

text \<open>
  \<open>lock\<close> is \<open>None\<close> until the first \<open>acquire\<close> creates the \<open>asyncio.Lock\<close>;
  afterwards it is \<open>Some None\<close> when the lock is free and \<open>Some (Some i)\<close> when task
  \<open>i\<close> holds it.
\<close>

record rate_limiter =
  max_calls :: int
  period :: time
  events :: "time list"
  lock :: "nat option option"

definition AsyncRateLimiter :: "int \<Rightarrow> time \<Rightarrow> exn + rate_limiter" where
  "AsyncRateLimiter mc p =
     (if mc \<le> 0 then Inl (ValueError ''max_calls must be positive'')
      else if p \<le> 0 then Inl (ValueError ''period must be positive'')
      else Inr \<lparr>max_calls = mc, period = p, events = [], lock = None\<rparr>)"

subsection \<open>The critical section of acquire\<close>

text \<open>
  The inner loop \<open>while self._events and now - self._events[0] >= self.period: popleft()\<close>.
\<close>

fun evict :: "time \<Rightarrow> time \<Rightarrow> time list \<Rightarrow> time list" where
  "evict now p [] = []"
| "evict now p (e # es) = (if now - e \<ge> p then evict now p es else e # es)"

datatype outcome = Granted | Wait time

text \<open>
  The body of \<open>async with self._lock\<close>, run at clock reading \<open>now\<close>: evict, then either
  append and return, or compute the wait time from the oldest remaining event.
  \<open>self._events[0]\<close> on an empty deque raises \<open>IndexError\<close>.
\<close>

definition critical_section :: "time \<Rightarrow> rate_limiter \<Rightarrow> (exn + outcome) \<times> rate_limiter" where
  "critical_section now l =
     (let l1 = l\<lparr>events := evict now (period l) (events l)\<rparr> in
      if int (length (events l1)) < max_calls l1
      then (Inr Granted, l1\<lparr>events := events l1 @ [now]\<rparr>)
      else (case events l1 of
              [] \<Rightarrow> (Inl (IndexError ''deque index out of range''), l1)
            | e0 # _ \<Rightarrow> (Inr (Wait (period l1 - (now - e0))), l1)))"

subsection \<open>acquire, one caller\<close>

lemma evict_dropWhile: "evict now p es = dropWhile (\<lambda>e. now - e \<ge> p) es"
  by (induction es) auto

lemma length_evict: "length (evict now p es) \<le> length es"
  by (simp add: evict_dropWhile length_dropWhile_le)

lemma evict_same_or_shorter:
  "evict now p es = es \<or> length (evict now p es) < length es"
  by (cases es) (auto simp: le_imp_less_Suc length_evict)

lemma evict_hd_fresh: "evict now p es = e0 # r \<Longrightarrow> \<not> now - e0 \<ge> p"
  by (induction es) (auto split: if_splits)

lemma critical_section_wait:
  "critical_section t l = (Inr (Wait w), l') \<Longrightarrow>
   \<exists>e0 r. evict t (period l) (events l) = e0 # r \<and> w = period l - (t - e0) \<and>
          l' = l\<lparr>events := e0 # r\<rparr> \<and> \<not> int (length (e0 # r)) < max_calls l"
  by (auto simp: critical_section_def Let_def split: if_splits list.splits)

lemma critical_section_granted:
  "critical_section t l = (Inr Granted, l') \<Longrightarrow>
   l' = l\<lparr>events := evict t (period l) (events l) @ [t]\<rparr> \<and>
   int (length (evict t (period l) (events l))) < max_calls l"
  by (auto simp: critical_section_def Let_def split: if_splits list.splits)

lemma critical_section_raises:
  "critical_section t l = (Inl e, l') \<Longrightarrow> \<not> 0 < max_calls l"
  by (auto simp: critical_section_def Let_def split: if_splits list.splits)

definition stale_head :: "rate_limiter \<Rightarrow> time \<Rightarrow> bool" where
  "stale_head l t = (case events l of [] \<Rightarrow> False | e # _ \<Rightarrow> t - e \<ge> period l)"

definition acquire_measure :: "rate_limiter \<Rightarrow> time \<Rightarrow> nat" where
  "acquire_measure l t = 2 * length (events l) + (if stale_head l t then 0 else 1)"

lemma acquire_measure_decreases:
  assumes cs: "critical_section t l = (Inr (Wait w), l')"
  shows "acquire_measure l' (t + max w 0 + max 0 d) < acquire_measure l t"
proof -
  let ?ev = "evict t (period l) (events l)"
  from critical_section_wait[OF cs] obtain e0 r where ev: "?ev = e0 # r"
    and w: "w = period l - (t - e0)" and l': "l' = l\<lparr>events := e0 # r\<rparr>"
    by blast
  let ?t' = "t + max w 0 + max 0 d"
  have "?t' - e0 \<ge> period l" using w by (simp add: max_def)
  then have st: "stale_head l' ?t'" by (simp add: stale_head_def l')
  have "2 * length ?ev + 0 < 2 * length (events l) + (if stale_head l t then 0 else 1)"
  proof (cases "?ev = events l")
    case True
    then have "events l = e0 # r" using ev by simp
    then have "\<not> stale_head l t" using evict_hd_fresh[OF ev] by (simp add: stale_head_def)
    then show ?thesis using True by simp
  next
    case False
    then have "length ?ev < length (events l)" using evict_same_or_shorter by blast
    then show ?thesis by simp
  qed
  then show ?thesis using st by (simp add: acquire_measure_def l' ev)
qed

text \<open>
  The \<open>while True\<close> loop of \<open>acquire\<close> for a caller that is alone on the limiter: the
  lock is free whenever it is asked for, and nobody touches \<open>events\<close> while the caller
  sleeps. \<open>t\<close> is the clock reading inside the critical section; \<open>asyncio.sleep(d)\<close>
  resumes the caller no earlier than \<open>d\<close> later, and \<open>lag\<close> says how much later than
  that the clock is next read (a negative answer counts as zero).
\<close>

function acquire_loop ::
  "(time \<Rightarrow> time) \<Rightarrow> rate_limiter \<Rightarrow> time \<Rightarrow> exn + (rate_limiter \<times> time)" where
  "acquire_loop lag l t =
     (case critical_section t l of
        (Inl e, l') \<Rightarrow> Inl e
      | (Inr Granted, l') \<Rightarrow> Inr (l', t)
      | (Inr (Wait wait_time), l') \<Rightarrow>
          acquire_loop lag l' (t + max wait_time 0 + max 0 (lag t)))"
  by pat_completeness auto
termination
proof (relation "measure (\<lambda>(lag, l, t). acquire_measure l t)")
  show "wf (measure (\<lambda>(lag, l, t). acquire_measure l t))" by simp
next
  fix lag :: "time \<Rightarrow> time" and l l' :: rate_limiter and t w :: time
    and r :: "exn + outcome" and out :: outcome
  assume "(r, l') = critical_section t l" and "r = Inr out" and "out = Wait w"
  then have "critical_section t l = (Inr (Wait w), l')" by simp
  from acquire_measure_decreases[OF this, of "lag t"]
  show "((lag, l', t + max w 0 + max 0 (lag t)), (lag, l, t))
          \<in> measure (\<lambda>(lag, l, t). acquire_measure l t)"
    by simp
qed

text \<open>\<open>if self._lock is None: self._lock = asyncio.Lock()\<close>\<close>

definition ensure_lock :: "rate_limiter \<Rightarrow> rate_limiter" where
  "ensure_lock l = (if lock l = None then l\<lparr>lock := Some None\<rparr> else l)"

definition acquire :: "(time \<Rightarrow> time) \<Rightarrow> rate_limiter \<Rightarrow> time \<Rightarrow> exn + (rate_limiter \<times> time)" where
  "acquire lag l t =
     acquire_loop lag (ensure_lock l) t"

subsection \<open>Successive critical sections\<close>

text \<open>
  The lock serialises the critical sections of all callers, so whatever the interleaving,
  the limiter sees a sequence of critical sections, each at its own clock reading.
  \<open>attempts l gs ts\<close> runs them in order from the limiter \<open>l\<close> and appends to \<open>gs\<close> the
  clock readings at which a slot was granted (the acquisitions that completed).
\<close>

fun attempts :: "rate_limiter \<Rightarrow> time list \<Rightarrow> time list \<Rightarrow> exn + (rate_limiter \<times> time list)" where
  "attempts l gs [] = Inr (l, gs)"
| "attempts l gs (t # ts) =
     (case critical_section t l of
        (Inl e, l') \<Rightarrow> Inl e
      | (Inr Granted, l') \<Rightarrow> attempts l' (gs @ [t]) ts
      | (Inr (Wait w), l') \<Rightarrow> attempts l' gs ts)"

definition in_window :: "time \<Rightarrow> time \<Rightarrow> time \<Rightarrow> bool" where
  "in_window T u g \<longleftrightarrow> u \<le> g \<and> g < u + T"

definition limiter_inv :: "rate_limiter \<Rightarrow> time \<Rightarrow> bool" where
  "limiter_inv l now \<longleftrightarrow>
     int (length (events l)) \<le> max_calls l \<and>
     (\<forall>e \<in> set (events l). e \<le> now \<and> now - e < period l)"

definition history_inv :: "rate_limiter \<Rightarrow> time list \<Rightarrow> time \<Rightarrow> bool" where
  "history_inv l gs now \<longleftrightarrow>
     0 < max_calls l \<and> 0 < period l \<and> sorted (events l) \<and> (\<forall>e \<in> set (events l). e \<le> now) \<and>
     int (length (events l)) \<le> max_calls l \<and>
     (\<exists>old. gs = old @ events l \<and> (\<forall>g \<in> set old. now - g \<ge> period l)) \<and>
     (\<forall>u. int (length (filter (in_window (period l) u) gs)) \<le> max_calls l)"

subsection \<open>acquire, many callers\<close>

text \<open>
  Where a task stands in \<open>acquire\<close>. The coroutine can be suspended at
  \<open>async with self._lock\<close> (waiting for the lock) and at \<open>await asyncio.sleep(...)\<close>;
  entering the \<open>with\<close> block takes the lock and leaving it, by \<open>return\<close>, by an
  exception or by falling through, releases it.
  \<^item> \<open>Idle\<close>: not inside \<open>acquire\<close>;
  \<^item> \<open>AtLock\<close>: at \<open>async with self._lock\<close>, waiting to enter;
  \<^item> \<open>InCS\<close>: inside the block, the lock held, the body not yet run;
  \<^item> \<open>Leaving r\<close>: the body has run with result \<open>r\<close>, the lock is still held;
  \<^item> \<open>AfterWith w\<close>: past the block with \<open>wait_time = w\<close>, about to call \<open>asyncio.sleep\<close>;
  \<^item> \<open>Sleeping u\<close>: suspended in \<open>asyncio.sleep\<close> until the clock reads \<open>u\<close>.
\<close>

datatype pc =
    Idle
  | AtLock
  | InCS
  | Leaving "exn + outcome"
  | AfterWith time
  | Sleeping time

record system =
  clock :: time
  limiter :: rate_limiter
  pcs :: "nat \<Rightarrow> pc"

fun holds_lock :: "pc \<Rightarrow> bool" where
  "holds_lock InCS = True"
| "holds_lock (Leaving r) = True"
| "holds_lock p = False"

text \<open>
  One step of one task, or the passing of time. Tasks interleave in any order; the body
  of the \<open>with\<close> block has no suspension point and runs as one step.
\<close>

inductive step :: "system \<Rightarrow> system \<Rightarrow> bool" where
  call: "pcs s i = Idle \<Longrightarrow>
     step s (s\<lparr>limiter := ensure_lock (limiter s), pcs := (pcs s)(i := AtLock)\<rparr>)"
| enter: "pcs s i = AtLock \<Longrightarrow> lock (limiter s) = Some None \<Longrightarrow>
     step s (s\<lparr>limiter := (limiter s)\<lparr>lock := Some (Some i)\<rparr>, pcs := (pcs s)(i := InCS)\<rparr>)"
| body: "pcs s i = InCS \<Longrightarrow> critical_section (clock s) (limiter s) = (r, l') \<Longrightarrow>
     step s (s\<lparr>limiter := l', pcs := (pcs s)(i := Leaving r)\<rparr>)"
| leave_return: "pcs s i = Leaving (Inr Granted) \<Longrightarrow>
     step s (s\<lparr>limiter := (limiter s)\<lparr>lock := Some None\<rparr>, pcs := (pcs s)(i := Idle)\<rparr>)"
| leave_raise: "pcs s i = Leaving (Inl e) \<Longrightarrow>
     step s (s\<lparr>limiter := (limiter s)\<lparr>lock := Some None\<rparr>, pcs := (pcs s)(i := Idle)\<rparr>)"
| leave_wait: "pcs s i = Leaving (Inr (Wait w)) \<Longrightarrow>
     step s (s\<lparr>limiter := (limiter s)\<lparr>lock := Some None\<rparr>, pcs := (pcs s)(i := AfterWith w)\<rparr>)"
| sleep: "pcs s i = AfterWith w \<Longrightarrow>
     step s (s\<lparr>pcs := (pcs s)(i := Sleeping (clock s + max w 0))\<rparr>)"
| wake: "pcs s i = Sleeping u \<Longrightarrow> u \<le> clock s \<Longrightarrow>
     step s (s\<lparr>pcs := (pcs s)(i := AtLock)\<rparr>)"
| tick: "0 \<le> d \<Longrightarrow> step s (s\<lparr>clock := clock s + d\<rparr>)"

text \<open>The states a system of callers sharing the limiter \<open>l0\<close> can be in.\<close>

inductive reachable :: "rate_limiter \<Rightarrow> system \<Rightarrow> bool" for l0 where
  init: "reachable l0 \<lparr>clock = t0, limiter = l0, pcs = (\<lambda>_. Idle)\<rparr>"
| after: "reachable l0 s \<Longrightarrow> step s s' \<Longrightarrow> reachable l0 s'"

definition lock_inv :: "system \<Rightarrow> bool" where
  "lock_inv s \<longleftrightarrow> (\<forall>i. lock (limiter s) = Some (Some i) \<longleftrightarrow> holds_lock (pcs s i))"

definition lock_created_inv :: "system \<Rightarrow> bool" where
  "lock_created_inv s \<longleftrightarrow> (lock (limiter s) = None \<longrightarrow> (\<forall>i. pcs s i = Idle))"

definition no_raise_inv :: "system \<Rightarrow> bool" where
  "no_raise_inv s \<longleftrightarrow> 0 < max_calls (limiter s) \<and> (\<forall>i e. pcs s i \<noteq> Leaving (Inl e))"

text \<open>
  The limiter of a state is the outcome of a sequence of critical sections at
  non-decreasing clock readings, none later than the present.
\<close>

definition serialised :: "rate_limiter \<Rightarrow> system \<Rightarrow> bool" where
  "serialised l0 s \<longleftrightarrow>
     (\<exists>ts l gs. sorted ts \<and> (\<forall>t \<in> set ts. t \<le> clock s) \<and>
        attempts l0 [] ts = Inr (l, gs) \<and> limiter s = l\<lparr>lock := lock (limiter s)\<rparr>)"

section \<open>agents/k8s\_agent.py\<close>

subsection \<open>The orchestration API and the world around the adapter\<close>

text \<open>
  Dictionaries are association lists in insertion order, the order \<open>items()\<close> gives,
  with distinct keys. The value under a key of \<open>k8s_resources\<close> (a \<open>Dict[str, Any]\<close>)
  is a quantity or a mapping of resource names to quantities.
\<close>

type_synonym dict = "(string \<times> string) list"

datatype resource_value = Quantity string | Quantities dict

type_synonym resource_dict = "(string \<times> resource_value) list"

text \<open>
  The model classes of the client library are records of the fields the module fills
  in. \<open>V1ResourceRequirements\<close> is called with \<open>**resources\<close>, the keys of the dictionary
  as keyword arguments: a key other than \<open>claims\<close>, \<open>limits\<close> and \<open>requests\<close> is an
  unexpected keyword argument and raises \<open>TypeError\<close>. The other constructors are given
  every argument they require and return.
\<close>

record V1ResourceRequirements =
  claims :: "resource_value option"
  limits :: "resource_value option"
  requests :: "resource_value option"

definition V1ResourceRequirements_init :: "resource_dict \<Rightarrow> exn + V1ResourceRequirements" where
  "V1ResourceRequirements_init kwargs =
     (case find (\<lambda>(k, v). k \<notin> set [''claims'', ''limits'', ''requests'']) kwargs of
        Some (k, v) \<Rightarrow> Inl (TypeError (''__init__() got an unexpected keyword argument '' @ k))
      | None \<Rightarrow>
          Inr \<lparr>claims = map_of kwargs ''claims'', limits = map_of kwargs ''limits'',
               requests = map_of kwargs ''requests''\<rparr>)"

record V1Container =
  container_name :: string
  container_image :: string
  container_env :: dict
  container_resources :: V1ResourceRequirements
  container_ports :: "int list option"

record V1Deployment =
  api_version :: string
  kind :: string
  metadata_name :: string
  metadata_labels :: dict
  spec_replicas :: int
  template_labels :: dict
  template_containers :: "V1Container list"
  template_restart_policy :: string
  selector_match_labels :: dict

record V1HorizontalPodAutoscaler =
  hpa_name :: string
  hpa_max_replicas :: int
  hpa_min_replicas :: int
  scale_target_api_version :: string
  scale_target_kind :: string
  scale_target_name :: string
  target_cpu_utilization_percentage :: int

record V1PodCondition =
  condition_type :: string
  condition_status :: string

text \<open>
  A listed pod: \<open>p.metadata\<close> (here its name) and \<open>p.status\<close> (here its conditions) may
  each be \<open>None\<close>, and so may \<open>p.status.conditions\<close>.
\<close>

record V1Pod =
  pod_metadata :: "string option"
  pod_status :: "V1PodCondition list option option"

text \<open>The remote calls, with the keyword arguments the module passes.\<close>

datatype api_call =
    read_namespaced_deployment string string
  | patch_namespaced_deployment string string V1Deployment
  | create_namespaced_deployment string V1Deployment
  | delete_namespaced_deployment string string
  | patch_namespaced_deployment_scale string string int
  | create_namespaced_horizontal_pod_autoscaler string V1HorizontalPodAutoscaler
  | delete_namespaced_horizontal_pod_autoscaler string string
  | list_namespaced_pod string string

datatype level = DEBUG | INFO | WARNING | ERROR

datatype log_arg = Str string | Exc exn

text \<open>
  The environment is a parameter: \<open>api\<close> answers a remote call in a cluster state of any
  type \<open>'c\<close>, by raising or by returning (the value returned matters for
  \<open>list_namespaced_pod\<close> only, whose \<open>items\<close> it is) and gives the next cluster state;
  \<open>latency\<close> is the time the blocking call takes and \<open>oversleep\<close> how much longer than
  asked \<open>asyncio.sleep\<close> lasts (negative answers count as zero); \<open>client_ok\<close> says whether
  a cluster configuration can be loaded; \<open>logger_error\<close> is the exception the logger
  raises on a call it does not accept.
\<close>

record 'c env =
  api :: "api_call \<Rightarrow> 'c \<Rightarrow> (exn + V1Pod list) \<times> 'c"
  latency :: "api_call \<Rightarrow> 'c \<Rightarrow> time"
  oversleep :: "time \<Rightarrow> time"
  client_ok :: bool
  logger_error :: "level \<Rightarrow> string \<Rightarrow> log_arg list \<Rightarrow> exn"

text \<open>
  The world: the cluster, the event loop's clock, and what the adapter has done to the
  outside, in order: the remote calls issued and the records logged.
\<close>

record 'c world =
  cluster :: 'c
  time_now :: time
  calls :: "api_call list"
  logs :: "(level \<times> string \<times> log_arg list) list"

definition remote :: "'c env \<Rightarrow> api_call \<Rightarrow> 'c world \<Rightarrow> (exn + V1Pod list) \<times> 'c world" where
  "remote E c w =
     (case api E c (cluster w) of
        (r, cl) \<Rightarrow>
          (r, w\<lparr>cluster := cl,
                time_now := time_now w + max 0 (latency E c (cluster w)),
                calls := calls w @ [c]\<rparr>))"

definition sleep_for :: "'c env \<Rightarrow> time \<Rightarrow> 'c world \<Rightarrow> 'c world" where
  "sleep_for E d w = w\<lparr>time_now := time_now w + d + max 0 (oversleep E (time_now w))\<rparr>"

text \<open>
  The module's \<open>logger\<close> is \<open>get_logger(__name__)\<close> of \<open>mcp_agent.logging.logger\<close>, not
  the standard library's. Its methods are \<open>debug(message, name, context, **data)\<close> and
  alike: the positional argument after the message is the event's name, which must be a
  string, and the one after it the event's context, which must be an event context. So
  the module's printf-style calls are accepted with the format alone or with one string
  after it, and raise with two arguments after the format or with one that is not a
  string (an exception object). A call that raises logs nothing.
\<close>

definition accepted :: "log_arg list \<Rightarrow> bool" where
  "accepted args = (case args of [] \<Rightarrow> True | [Str s] \<Rightarrow> True | _ \<Rightarrow> False)"

definition log ::
  "'c env \<Rightarrow> level \<Rightarrow> string \<Rightarrow> log_arg list \<Rightarrow> 'c world \<Rightarrow> (exn + unit) \<times> 'c world" where
  "log E lv fmt args w =
     (if accepted args then (Inr (), w\<lparr>logs := logs w @ [(lv, fmt, args)]\<rparr>)
      else (Inl (logger_error E lv fmt args), w))"

definition returned :: "exn + 'a \<Rightarrow> exn + unit" where
  "returned r = (case r of Inl e \<Rightarrow> Inl e | Inr _ \<Rightarrow> Inr ())"

subsection \<open>KubernetesManager\<close>

record KubernetesManager =
  namespace :: string
  kubeconfig :: "string option"

text \<open>
  \<open>__init__\<close> with \<open>_ensure_client\<close>: any failure to load a configuration is re-raised
  as \<open>RuntimeError\<close>.
\<close>

definition KubernetesManager_init :: "'c env \<Rightarrow> string \<Rightarrow> exn + KubernetesManager" where
  "KubernetesManager_init E ns =
     (if client_ok E then Inr \<lparr>namespace = ns, kubeconfig = None\<rparr>
      else Inl (RuntimeError ''Failed to initialize Kubernetes client. Install 'kubernetes' package and make sure kubeconfig or in-cluster config is available.''))"

text \<open>
  The request body \<open>create_deployment\<close> builds before the \<open>try\<close> block, that is before
  it talks to the cluster; building the \<open>V1ResourceRequirements\<close> from
  \<open>resources or {}\<close> is the one step of it that can raise.
\<close>

definition deployment_body ::
  "string \<Rightarrow> string \<Rightarrow> dict \<Rightarrow> int option \<Rightarrow> int \<Rightarrow> dict option \<Rightarrow> resource_dict option \<Rightarrow>
   exn + V1Deployment" where
  "deployment_body name img labels container_port replicas env_vars resources =
     (let env_list = (case env_vars of None \<Rightarrow> [] | Some d \<Rightarrow> d)
      in case V1ResourceRequirements_init (case resources of None \<Rightarrow> [] | Some d \<Rightarrow> d) of
           Inl e \<Rightarrow> Inl e
         | Inr requirements \<Rightarrow>
             let container = \<lparr>container_name = name, container_image = img,
                               container_env = env_list, container_resources = requirements,
                               container_ports =
                                 (case container_port of
                                    None \<Rightarrow> None
                                  | Some p \<Rightarrow> if p = 0 then None else Some [p])\<rparr>
             in Inr \<lparr>api_version = ''apps/v1'', kind = ''Deployment'',
                     metadata_name = name, metadata_labels = labels,
                     spec_replicas = replicas, template_labels = labels,
                     template_containers = [container], template_restart_policy = ''Always'',
                     selector_match_labels = labels\<rparr>)"

text \<open>
  \<open>create_deployment\<close>: the \<open>try\<close> block holds the read, the log call and the patch, so
  an \<open>ApiException\<close> raised in it reaches the handler; status 404 there leads to the
  create, any other status is re-raised. An exception that is not an \<open>ApiException\<close>,
  and any exception raised in the handler, leaves the method.
\<close>

definition create_deployment_except ::
  "'c env \<Rightarrow> KubernetesManager \<Rightarrow> string \<Rightarrow> V1Deployment \<Rightarrow> exn \<Rightarrow> 'c world \<Rightarrow> (exn + unit) \<times> 'c world" where
  "create_deployment_except E m name deployment e w =
     (case e of
        ApiException status \<Rightarrow>
          if status = 404
          then (case log E INFO ''Creating deployment %s'' [Str name] w of
                  (Inl e', w1) \<Rightarrow> (Inl e', w1)
                | (Inr _, w1) \<Rightarrow>
                    (case remote E (create_namespaced_deployment (namespace m) deployment) w1 of
                       (r, w') \<Rightarrow> (returned r, w')))
          else (Inl e, w)
      | _ \<Rightarrow> (Inl e, w))"

definition create_deployment ::
  "'c env \<Rightarrow> KubernetesManager \<Rightarrow> string \<Rightarrow> string \<Rightarrow> dict \<Rightarrow> int option \<Rightarrow> int \<Rightarrow>
   dict option \<Rightarrow> resource_dict option \<Rightarrow> 'c world \<Rightarrow> (exn + unit) \<times> 'c world" where
  "create_deployment E m name img labels container_port replicas env_vars resources w =
     (case deployment_body name img labels container_port replicas env_vars resources of
        Inl e \<Rightarrow> (Inl e, w)
      | Inr deployment \<Rightarrow>
          (case remote E (read_namespaced_deployment name (namespace m)) w of
             (Inl e, w1) \<Rightarrow> create_deployment_except E m name deployment e w1
           | (Inr existing, w1) \<Rightarrow>
               (case log E INFO ''Patching existing deployment %s'' [Str name] w1 of
                  (Inl e, w2) \<Rightarrow> create_deployment_except E m name deployment e w2
                | (Inr _, w2) \<Rightarrow>
                    (case remote E (patch_namespaced_deployment name (namespace m) deployment) w2 of
                       (Inl e, w3) \<Rightarrow> create_deployment_except E m name deployment e w3
                     | (Inr _, w3) \<Rightarrow> (Inr (), w3)))))"

text \<open>
  In the handlers below the log call comes first: when it raises, its exception leaves
  the method and the statement after it (a \<open>raise\<close>, or the end of the handler) is not
  reached.
\<close>

definition delete_deployment ::
  "'c env \<Rightarrow> KubernetesManager \<Rightarrow> string \<Rightarrow> 'c world \<Rightarrow> (exn + unit) \<times> 'c world" where
  "delete_deployment E m name w =
     (case remote E (delete_namespaced_deployment name (namespace m)) w of
        (Inr _, w1) \<Rightarrow> (Inr (), w1)
      | (Inl e, w1) \<Rightarrow>
          (case e of
             ApiException status \<Rightarrow>
               if status = 404
               then log E DEBUG ''Deployment %s not found during delete'' [Str name] w1
               else log E WARNING ''Failed to delete deployment %s: %s'' [Str name, Exc e] w1
           | _ \<Rightarrow> (Inl e, w1)))"

definition scale_deployment ::
  "'c env \<Rightarrow> KubernetesManager \<Rightarrow> string \<Rightarrow> int \<Rightarrow> 'c world \<Rightarrow> (exn + unit) \<times> 'c world" where
  "scale_deployment E m name replicas w =
     (case remote E (patch_namespaced_deployment_scale name (namespace m) replicas) w of
        (Inr _, w1) \<Rightarrow> (Inr (), w1)
      | (Inl e, w1) \<Rightarrow>
          (case e of
             ApiException status \<Rightarrow>
               (case log E ERROR ''Failed to scale deployment %s: %s'' [Str name, Exc e] w1 of
                  (Inl e', w2) \<Rightarrow> (Inl e', w2)
                | (Inr _, w2) \<Rightarrow> (Inl e, w2))
           | _ \<Rightarrow> (Inl e, w1)))"

definition create_hpa ::
  "'c env \<Rightarrow> KubernetesManager \<Rightarrow> string \<Rightarrow> int \<Rightarrow> int \<Rightarrow> int \<Rightarrow> 'c world \<Rightarrow> (exn + unit) \<times> 'c world" where
  "create_hpa E m name min_replicas max_replicas cpu_utilization w =
     (let hpa = \<lparr>hpa_name = name, hpa_max_replicas = max_replicas, hpa_min_replicas = min_replicas,
                 scale_target_api_version = ''apps/v1'', scale_target_kind = ''Deployment'',
                 scale_target_name = name,
                 target_cpu_utilization_percentage = cpu_utilization\<rparr>
      in case remote E (create_namespaced_horizontal_pod_autoscaler (namespace m) hpa) w of
           (Inr _, w1) \<Rightarrow> (Inr (), w1)
         | (Inl e, w1) \<Rightarrow>
             (case e of
                ApiException status \<Rightarrow>
                  if status = 409
                  then log E INFO ''HPA %s already exists'' [Str name] w1
                  else (case log E ERROR ''Failed to create HPA %s: %s'' [Str name, Exc e] w1 of
                          (Inl e', w2) \<Rightarrow> (Inl e', w2)
                        | (Inr _, w2) \<Rightarrow> (Inl e, w2))
              | _ \<Rightarrow> (Inl e, w1)))"

definition delete_hpa ::
  "'c env \<Rightarrow> KubernetesManager \<Rightarrow> string \<Rightarrow> 'c world \<Rightarrow> (exn + unit) \<times> 'c world" where
  "delete_hpa E m name w =
     (case remote E (delete_namespaced_horizontal_pod_autoscaler name (namespace m)) w of
        (Inr _, w1) \<Rightarrow> (Inr (), w1)
      | (Inl e, w1) \<Rightarrow>
          (case e of
             ApiException status \<Rightarrow>
               if status = 404
               then log E DEBUG ''HPA %s not found during delete'' [Str name] w1
               else log E WARNING ''Failed to delete HPA %s: %s'' [Str name, Exc e] w1
           | _ \<Rightarrow> (Inl e, w1)))"

subsection \<open>K8sAgentAdapter\<close>

text \<open>
  The fields of the adapter the module reads or writes. \<open>initialized\<close> and
  \<open>connection_persistence\<close> belong to the base class \<open>Agent\<close>; the latter is read with
  \<open>getattr(self, "connection_persistence", False)\<close>, so it may be missing (\<open>None\<close>).
\<close>

record K8sAgentAdapter =
  agent_name :: string
  initialized :: bool
  connection_persistence :: "bool option"
  k8s_image :: "string option"
  k8s_namespace :: string
  k8s_replicas :: int
  k8s_labels :: dict
  k8s_env :: dict
  k8s_resources :: resource_dict
  k8s_port :: "int option"
  k8s_autoscale :: bool
  k8s_hpa_min_replicas :: int
  k8s_hpa_max_replicas :: int
  k8s_hpa_cpu :: "int option"
  k8s_manager :: "KubernetesManager option"
  deployment_name :: string

text \<open>
  \<open>__init__\<close>, applied to the object the base class has built from the keyword
  arguments: no manager yet, the deployment name derived from the agent's name, and a
  default label when none is given.
\<close>

definition K8sAgentAdapter_init :: "K8sAgentAdapter \<Rightarrow> K8sAgentAdapter" where
  "K8sAgentAdapter_init a =
     (let a1 = a\<lparr>k8s_manager := None, deployment_name := ''mcp-agent-'' @ agent_name a\<rparr>
      in if k8s_labels a1 = [] then a1\<lparr>k8s_labels := [(''app'', deployment_name a1)]\<rparr> else a1)"

definition ensure_k8s_manager ::
  "'c env \<Rightarrow> K8sAgentAdapter \<Rightarrow> exn + (K8sAgentAdapter \<times> KubernetesManager)" where
  "ensure_k8s_manager E a =
     (case k8s_manager a of
        Some m \<Rightarrow> Inr (a, m)
      | None \<Rightarrow>
          (case KubernetesManager_init E (k8s_namespace a) of
             Inl e \<Rightarrow> Inl e
           | Inr m \<Rightarrow> Inr (a\<lparr>k8s_manager := Some m\<rparr>, m)))"

text \<open>\<open>",".join([f"{k}={v}" for k, v in self.k8s_labels.items()])\<close>\<close>

fun join :: "string \<Rightarrow> string list \<Rightarrow> string" where
  "join sep [] = []"
| "join sep [x] = x"
| "join sep (x # y # ys) = x @ sep @ join sep (y # ys)"

definition label_selector :: "dict \<Rightarrow> string" where
  "label_selector labels = join '','' (map (\<lambda>(k, v). k @ ''='' @ v) labels)"

text \<open>
  One pass over \<open>pods.items\<close> inside the \<open>try\<close>: the first pod with a condition of type
  \<open>"Ready"\<close> and status \<open>"True"\<close> ends the wait; reading an attribute of \<open>None\<close> raises
  \<open>AttributeError\<close>, which the \<open>except Exception\<close> of the caller receives.
\<close>

datatype scan_result = ReadyPod string | NoneReady | ScanRaised exn

definition is_ready :: "V1PodCondition \<Rightarrow> bool" where
  "is_ready c \<longleftrightarrow> condition_type c = ''Ready'' \<and> condition_status c = ''True''"

fun scan :: "V1Pod list \<Rightarrow> scan_result" where
  "scan [] = NoneReady"
| "scan (p # ps) =
     (case pod_status p of
        None \<Rightarrow> ScanRaised (AttributeError ''conditions'')
      | Some conditions \<Rightarrow>
          let conds = (case conditions of None \<Rightarrow> [] | Some cs \<Rightarrow> cs)
          in if list_ex is_ready conds
             then (case pod_metadata p of
                     None \<Rightarrow> ScanRaised (AttributeError ''name'')
                   | Some pod_name \<Rightarrow> ReadyPod pod_name)
             else scan ps)"

text \<open>
  One round of the \<open>while True\<close> loop of \<open>_wait_for_pod_ready\<close> past the deadline
  check. The \<open>try\<close> block lists, scans and, for a ready pod, logs and returns; whatever
  it raises, the log call included, goes to \<open>except Exception\<close>, whose own log call is
  outside any \<open>try\<close>: if that raises, the exception leaves the method. Otherwise the
  round ends with a sleep of 2 seconds and the loop goes round again.
\<close>

datatype 'w round = Again 'w | Found 'w | Raised exn 'w

definition poll_except :: "'c env \<Rightarrow> exn \<Rightarrow> 'c world \<Rightarrow> 'c world round" where
  "poll_except E e w =
     (case log E DEBUG ''Waiting for pod ready: %s'' [Exc e] w of
        (Inl e', w1) \<Rightarrow> Raised e' w1
      | (Inr _, w1) \<Rightarrow> Again (sleep_for E 2 w1))"

definition poll_once :: "'c env \<Rightarrow> K8sAgentAdapter \<Rightarrow> 'c world \<Rightarrow> 'c world round" where
  "poll_once E a w =
     (case remote E (list_namespaced_pod (k8s_namespace a) (label_selector (k8s_labels a))) w of
        (Inl e, w1) \<Rightarrow> poll_except E e w1
      | (Inr pods, w1) \<Rightarrow>
          (case scan pods of
             ReadyPod pod_name \<Rightarrow>
               (case log E INFO ''Found ready pod %s for deployment %s''
                       [Str pod_name, Str (deployment_name a)] w1 of
                  (Inl e, w2) \<Rightarrow> poll_except E e w2
                | (Inr _, w2) \<Rightarrow> Found w2)
           | ScanRaised e \<Rightarrow> poll_except E e w1
           | NoneReady \<Rightarrow> Again (sleep_for E 2 w1)))"

lemma remote_time: "remote E c w = (r, w') \<Longrightarrow> time_now w \<le> time_now w'"
  by (auto simp: remote_def split: prod.splits)

lemma log_time: "log E lv fmt args w = (r, w') \<Longrightarrow> time_now w' = time_now w"
  by (auto simp: log_def split: if_splits)

lemma poll_except_time: "poll_except E e w = Again w' \<Longrightarrow> time_now w + 2 \<le> time_now w'"
  by (auto simp: poll_except_def sleep_for_def split: prod.splits sum.splits dest!: log_time)

lemma poll_once_time: "poll_once E a w = Again w' \<Longrightarrow> time_now w + 2 \<le> time_now w'"
proof -
  assume p: "poll_once E a w = Again w'"
  obtain r w1 where r: "remote E (list_namespaced_pod (k8s_namespace a) (label_selector (k8s_labels a))) w = (r, w1)"
    by (cases "remote E (list_namespaced_pod (k8s_namespace a) (label_selector (k8s_labels a))) w")
  from remote_time[OF r] have "time_now w \<le> time_now w1" .
  moreover have "time_now w1 + 2 \<le> time_now w'"
    using p r
    by (auto simp: poll_once_def sleep_for_def
        split: sum.splits scan_result.splits prod.splits
        dest!: poll_except_time log_time)
  ultimately show ?thesis by linarith
qed

function wait_loop ::
  "'c env \<Rightarrow> K8sAgentAdapter \<Rightarrow> time \<Rightarrow> time \<Rightarrow> 'c world \<Rightarrow> (exn + unit) \<times> 'c world" where
  "wait_loop E a timeout_seconds start w =
     (if time_now w - start > timeout_seconds
      then (Inl (TimeoutError ''Timed out waiting for pod to become ready''), w)
      else (case poll_once E a w of
              Found w' \<Rightarrow> (Inr (), w')
            | Raised e w' \<Rightarrow> (Inl e, w')
            | Again w' \<Rightarrow> wait_loop E a timeout_seconds start w'))"
  by pat_completeness auto
termination
proof (relation "measure (\<lambda>(E, a, timeout_seconds, start, w).
                    nat (\<lfloor>timeout_seconds - (time_now w - start)\<rfloor> + 2))")
  show "wf (measure (\<lambda>(E, a, timeout_seconds, start, w).
                    nat (\<lfloor>timeout_seconds - (time_now w - start)\<rfloor> + 2)))"
    by simp
next
  fix E :: "'c env" and a :: K8sAgentAdapter and timeout_seconds start :: time
    and w w' :: "'c world"
  assume live: "\<not> timeout_seconds < time_now w - start" and p: "poll_once E a w = Again w'"
  let ?x = "timeout_seconds - (time_now w - start)"
  let ?y = "timeout_seconds - (time_now w' - start)"
  have "?y \<le> ?x - 2" using poll_once_time[OF p] by linarith
  then have "\<lfloor>?y\<rfloor> \<le> \<lfloor>?x - 2\<rfloor>" by (rule floor_mono)
  then have "\<lfloor>?y\<rfloor> + 2 \<le> \<lfloor>?x\<rfloor>" by simp
  moreover have "0 \<le> \<lfloor>?x\<rfloor>" using live by simp
  ultimately have "nat (\<lfloor>?y\<rfloor> + 2) < nat (\<lfloor>?x\<rfloor> + 2)" by linarith
  then show "((E, a, timeout_seconds, start, w'), (E, a, timeout_seconds, start, w))
        \<in> measure (\<lambda>(E, a, timeout_seconds, start, w).
                    nat (\<lfloor>timeout_seconds - (time_now w - start)\<rfloor> + 2))"
    by simp
qed

definition wait_for_pod_ready ::
  "'c env \<Rightarrow> time \<Rightarrow> K8sAgentAdapter \<Rightarrow> 'c world \<Rightarrow> (exn + unit) \<times> K8sAgentAdapter \<times> 'c world" where
  "wait_for_pod_ready E timeout_seconds a w =
     (case ensure_k8s_manager E a of
        Inl e \<Rightarrow> (Inl e, a, w)
      | Inr (a1, m) \<Rightarrow>
          (case wait_loop E a1 timeout_seconds (time_now w) w of
             (r, w') \<Rightarrow> (r, a1, w')))"

text \<open>
  \<open>initialize\<close>: past the guard the first statement is a log call with two arguments
  after the format; the provisioning follows it. \<open>self.initialized = True\<close> is assigned
  after the readiness wait has returned and before the last log call.
\<close>

definition initialize ::
  "'c env \<Rightarrow> bool \<Rightarrow> K8sAgentAdapter \<Rightarrow> 'c world \<Rightarrow> (exn + unit) \<times> K8sAgentAdapter \<times> 'c world" where
  "initialize E force a w =
     (if initialized a \<and> \<not> force then (Inr (), a, w)
      else
        case log E INFO ''K8sAgentAdapter initializing agent %s: provisioning deployment %s''
               [Str (agent_name a), Str (deployment_name a)] w of
          (Inl e, w0) \<Rightarrow> (Inl e, a, w0)
        | (Inr _, w0) \<Rightarrow>
            (case ensure_k8s_manager E a of
               Inl e \<Rightarrow> (Inl e, a, w0)
             | Inr (a1, m) \<Rightarrow>
                 (case create_deployment E m (deployment_name a1)
                         (case k8s_image a1 of None \<Rightarrow> '''' | Some img \<Rightarrow> img)
                         (k8s_labels a1) (k8s_port a1) (k8s_replicas a1)
                         (Some (k8s_env a1)) (Some (k8s_resources a1)) w0 of
                    (Inl e, w1) \<Rightarrow> (Inl e, a1, w1)
                  | (Inr _, w1) \<Rightarrow>
                      (case (if k8s_autoscale a1
                             then create_hpa E m (deployment_name a1)
                                    (k8s_hpa_min_replicas a1) (k8s_hpa_max_replicas a1) 80 w1
                             else (Inr (), w1)) of
                         (Inl e, w2) \<Rightarrow> (Inl e, a1, w2)
                       | (Inr _, w2) \<Rightarrow>
                           (case wait_for_pod_ready E 120 a1 w2 of
                              (Inl e, a2, w3) \<Rightarrow> (Inl e, a2, w3)
                            | (Inr _, a2, w3) \<Rightarrow>
                                (case log E INFO ''K8sAgentAdapter provisioning complete for %s''
                                        [Str (agent_name a2)] w3 of
                                   (r, w4) \<Rightarrow> (r, a2\<lparr>initialized := True\<rparr>, w4)))))))"

definition shutdown ::
  "'c env \<Rightarrow> K8sAgentAdapter \<Rightarrow> 'c world \<Rightarrow> (exn + unit) \<times> K8sAgentAdapter \<times> 'c world" where
  "shutdown E a w =
     (case log E INFO ''K8sAgentAdapter shutting down agent %s'' [Str (agent_name a)] w of
        (Inl e, w0) \<Rightarrow> (Inl e, a, w0)
      | (Inr _, w0) \<Rightarrow>
          if connection_persistence a = Some True
          then (case log E INFO ''connection_persistence=True, leaving deployment %s running''
                       [Str (deployment_name a)] w0 of
                  (r, w1) \<Rightarrow> (r, a, w1))
          else (case k8s_manager a of
                  None \<Rightarrow> (Inr (), a\<lparr>initialized := False\<rparr>, w0)
                | Some m \<Rightarrow>
                    (case delete_hpa E m (deployment_name a) w0 of
                       (Inl e, w1) \<Rightarrow> (Inl e, a, w1)
                     | (Inr _, w1) \<Rightarrow>
                         (case delete_deployment E m (deployment_name a) w1 of
                            (Inl e, w2) \<Rightarrow> (Inl e, a, w2)
                          | (Inr _, w2) \<Rightarrow> (Inr (), a\<lparr>initialized := False\<rparr>, w2)))))"

definition scale ::
  "'c env \<Rightarrow> int \<Rightarrow> K8sAgentAdapter \<Rightarrow> 'c world \<Rightarrow> (exn + unit) \<times> K8sAgentAdapter \<times> 'c world" where
  "scale E replicas a w =
     (case ensure_k8s_manager E a of
        Inl e \<Rightarrow> (Inl e, a, w)
      | Inr (a1, m) \<Rightarrow>
          (case scale_deployment E m (deployment_name a1) replicas w of
             (r, w') \<Rightarrow> (r, a1, w')))"

definition enable_autoscale ::
  "'c env \<Rightarrow> int \<Rightarrow> int \<Rightarrow> int \<Rightarrow> K8sAgentAdapter \<Rightarrow> 'c world \<Rightarrow>
   (exn + unit) \<times> K8sAgentAdapter \<times> 'c world" where
  "enable_autoscale E min_replicas max_replicas cpu_utilization a w =
     (let a0 = a\<lparr>k8s_autoscale := True, k8s_hpa_min_replicas := min_replicas,
                 k8s_hpa_max_replicas := max_replicas, k8s_hpa_cpu := Some cpu_utilization\<rparr>
      in case ensure_k8s_manager E a0 of
           Inl e \<Rightarrow> (Inl e, a0, w)
         | Inr (a1, m) \<Rightarrow>
             (case create_hpa E m (deployment_name a1) min_replicas max_replicas cpu_utilization w of
                (r, w') \<Rightarrow> (r, a1, w')))"

text \<open>A listed pod reports ready: its status has a condition of type Ready with status True.\<close>

definition reports_ready :: "V1Pod \<Rightarrow> bool" where
  "reports_ready p =
     (case pod_status p of
        Some (Some conds) \<Rightarrow> list_ex is_ready conds
      | _ \<Rightarrow> False)"

subsection \<open>The example of examples/usecases/k8s\_agent\_adapter/main.py\<close>

text \<open>
  The adapter \<open>main.py\<close> builds (it passes no \<open>connection_persistence\<close>, so that has
  the base class's default), and small environments to run it in: a cluster that
  accepts every call and lists no pod, one that fails every call with a given exception,
  and one that remembers whether the deployment exists (its state is that flag). In all
  of them the logger's exception is a \<open>ValidationError\<close> naming the format.
\<close>

definition demo_agent :: K8sAgentAdapter where
  "demo_agent =
     K8sAgentAdapter_init
       \<lparr>agent_name = ''k8s-demo-agent'', initialized = False, connection_persistence = Some True,
        k8s_image = Some ''ghcr.io/sands/mcp-agent:latest'', k8s_namespace = ''default'',
        k8s_replicas = 1, k8s_labels = [], k8s_env = [(''EXAMPLE_VAR'', ''value'')],
        k8s_resources = [], k8s_port = None, k8s_autoscale = False,
        k8s_hpa_min_replicas = 1, k8s_hpa_max_replicas = 3, k8s_hpa_cpu = None,
        k8s_manager = None, deployment_name = []\<rparr>"

definition accepting :: "time \<Rightarrow> unit env" where
  "accepting d =
     \<lparr>api = (\<lambda>c cl. (Inr [], cl)), latency = (\<lambda>c cl. d), oversleep = (\<lambda>t. 0), client_ok = True,
      logger_error = (\<lambda>lv fmt args. ValidationError fmt)\<rparr>"


definition remembering :: "bool env" where
  "remembering =
     \<lparr>api = (\<lambda>c present.
               case c of
                 read_namespaced_deployment name ns \<Rightarrow>
                   if present then (Inr [], present) else (Inl (ApiException 404), present)
               | patch_namespaced_deployment name ns body \<Rightarrow>
                   if present then (Inr [], present) else (Inl (ApiException 404), present)
               | create_namespaced_deployment ns body \<Rightarrow>
                   if present then (Inl (ApiException 409), present) else (Inr [], True)
               | delete_namespaced_deployment name ns \<Rightarrow>
                   if present then (Inr [], False) else (Inl (ApiException 404), present)
               | _ \<Rightarrow> (Inr [], present)),
      latency = (\<lambda>c cl. 0), oversleep = (\<lambda>t. 0), client_ok = True,
      logger_error = (\<lambda>lv fmt args. ValidationError fmt)\<rparr>"

definition fresh :: "'c \<Rightarrow> 'c world" where
  "fresh cl = \<lparr>cluster = cl, time_now = 0, calls = [], logs = []\<rparr>"

section \<open>Properties of the rate limiter\<close>

subsection \<open>Eviction\<close>

lemma evict_split:
  "\<exists>dropped. es = dropped @ evict now p es \<and> (\<forall>g \<in> set dropped. now - g \<ge> p)"
proof (induction es)
  case Nil
  then show ?case by simp
next
  case (Cons e es)
  show ?case
  proof (cases "now - e \<ge> p")
    case True
    from Cons obtain d where "es = d @ evict now p es" "\<forall>g \<in> set d. now - g \<ge> p" by blast
    then have "e # es = (e # d) @ evict now p (e # es) \<and> (\<forall>g \<in> set (e # d). now - g \<ge> p)"
      using True by simp
    then show ?thesis by blast
  next
    case False
    then have "e # es = [] @ evict now p (e # es) \<and> (\<forall>g \<in> set []. now - g \<ge> p)" by simp
    then show ?thesis by blast
  qed
qed

lemma evict_sorted_fresh:
  "sorted es \<Longrightarrow> \<forall>e \<in> set (evict now p es). now - e < p"
  by (induction es) (auto split: if_splits)

lemma sorted_evict: "sorted es \<Longrightarrow> sorted (evict now p es)"
  by (induction es) auto

lemma set_evict: "set (evict now p es) \<subseteq> set es"
  by (induction es) auto

subsection \<open>One critical section keeps the invariants\<close>

lemma critical_section_no_error:
  "0 < max_calls l \<Longrightarrow>
   \<exists>out l'. critical_section t l = (Inr out, l') \<and> max_calls l' = max_calls l \<and> period l' = period l"
  by (auto simp: critical_section_def Let_def split: list.splits)

lemma history_step_wait:
  assumes inv: "history_inv l gs now" and le: "now \<le> t"
    and cs: "critical_section t l = (Inr (Wait w), l')"
  shows "history_inv l' gs t \<and> limiter_inv l' t"
proof -
  let ?ev = "evict t (period l) (events l)"
  from critical_section_wait[OF cs] have l': "l' = l\<lparr>events := ?ev\<rparr>"
    by auto
  from inv obtain old where old: "gs = old @ events l" "\<forall>g \<in> set old. now - g \<ge> period l"
    unfolding history_inv_def by blast
  obtain dropped where d: "events l = dropped @ ?ev" "\<forall>g \<in> set dropped. t - g \<ge> period l"
    using evict_split by blast
  have srt: "sorted (events l)" and bnd: "\<forall>e \<in> set (events l). e \<le> now"
    and len: "int (length (events l)) \<le> max_calls l"
    using inv unfolding history_inv_def by blast+
  have 1: "sorted ?ev" using srt by (rule sorted_evict)
  have 2: "\<forall>e \<in> set ?ev. e \<le> t" using bnd le set_evict[of t "period l" "events l"] by fastforce
  have 3: "int (length ?ev) \<le> max_calls l" using len length_evict[of t "period l" "events l"] by linarith
  have 4: "gs = (old @ dropped) @ ?ev" using old(1) d(1) by simp
  have 5: "\<forall>g \<in> set (old @ dropped). t - g \<ge> period l" using old(2) d(2) le by fastforce
  have 6: "\<forall>e \<in> set ?ev. t - e < period l" using evict_sorted_fresh[OF srt] by blast
  have 8: "\<exists>old'. gs = old' @ ?ev \<and> (\<forall>g \<in> set old'. t - g \<ge> period l)"
    using 4 5 by blast
  have h: "history_inv l' gs t"
    unfolding history_inv_def l' using inv 1 2 3 8 unfolding history_inv_def by simp
  have "limiter_inv l' t" unfolding limiter_inv_def l' using 2 3 6 by simp
  with h show ?thesis by blast
qed

lemma history_step_granted:
  assumes inv: "history_inv l gs now" and le: "now \<le> t"
    and cs: "critical_section t l = (Inr Granted, l')"
  shows "history_inv l' (gs @ [t]) t \<and> limiter_inv l' t"
proof -
  let ?ev = "evict t (period l) (events l)"
  let ?T = "period l"
  from critical_section_granted[OF cs]
  have l': "l' = l\<lparr>events := ?ev @ [t]\<rparr>" and room: "int (length ?ev) < max_calls l"
    by blast+
  from inv obtain old where old: "gs = old @ events l" "\<forall>g \<in> set old. now - g \<ge> ?T"
    unfolding history_inv_def by blast
  obtain dropped where d: "events l = dropped @ ?ev" "\<forall>g \<in> set dropped. t - g \<ge> ?T"
    using evict_split by blast
  have srt: "sorted (events l)" and bnd: "\<forall>e \<in> set (events l). e \<le> now"
    and pos: "0 < ?T" and mc: "0 < max_calls l"
    and win: "\<forall>u. int (length (filter (in_window ?T u) gs)) \<le> max_calls l"
    using inv unfolding history_inv_def by blast+
  have 2: "\<forall>e \<in> set ?ev. e \<le> t" using bnd le set_evict[of t ?T "events l"] by fastforce
  have 1: "sorted (?ev @ [t])" using sorted_evict[OF srt] 2 by (simp add: sorted_append)
  have 3: "int (length (?ev @ [t])) \<le> max_calls l" using room by simp
  have 4: "gs @ [t] = (old @ dropped) @ (?ev @ [t])" using old(1) d(1) by simp
  have 5: "\<forall>g \<in> set (old @ dropped). t - g \<ge> ?T" using old(2) d(2) le by fastforce
  have 6: "\<forall>e \<in> set (?ev @ [t]). t - e < ?T" using evict_sorted_fresh[OF srt] pos by auto
  have 7: "int (length (filter (in_window ?T u) (gs @ [t]))) \<le> max_calls l" for u
  proof (cases "in_window ?T u t")
    case False
    then show ?thesis using win by simp
  next
    case True
    have "\<not> in_window ?T u g" if "g \<in> set (old @ dropped)" for g
    proof -
      have "t - g \<ge> ?T" using 5 that by blast
      then show ?thesis using True unfolding in_window_def by linarith
    qed
    then have "filter (in_window ?T u) (old @ dropped) = []"
      unfolding filter_empty_conv by blast
    then have "filter (in_window ?T u) (gs @ [t]) = filter (in_window ?T u) ?ev @ [t]"
      using True unfolding 4 by simp
    then have "length (filter (in_window ?T u) (gs @ [t])) = Suc (length (filter (in_window ?T u) ?ev))"
      by (simp only: length_append_singleton)
    moreover have "length (filter (in_window ?T u) ?ev) \<le> length ?ev" by (rule length_filter_le)
    ultimately show ?thesis using room by linarith
  qed
  have 8: "\<exists>old'. gs @ [t] = old' @ (?ev @ [t]) \<and> (\<forall>g \<in> set old'. t - g \<ge> ?T)"
    using 4 5 by blast
  have h: "history_inv l' (gs @ [t]) t"
    unfolding history_inv_def l' using pos mc 1 2 3 7 8 by simp
  have "limiter_inv l' t" unfolding limiter_inv_def l' using 2 3 6 by simp
  with h show ?thesis by blast
qed

lemma attempts_inv:
  "history_inv l gs now \<Longrightarrow> limiter_inv l now \<Longrightarrow> sorted (now # ts) \<Longrightarrow>
   \<exists>l' gs'. attempts l gs ts = Inr (l', gs') \<and>
     history_inv l' gs' (last (now # ts)) \<and> limiter_inv l' (last (now # ts))"
proof (induction ts arbitrary: l gs now)
  case Nil
  then show ?case by simp
next
  case (Cons t ts)
  have le: "now \<le> t" and srt: "sorted (t # ts)" using Cons.prems(3) by auto
  have "0 < max_calls l" using Cons.prems(1) unfolding history_inv_def by blast
  from critical_section_no_error[OF this, of t]
  obtain out l1 where cs: "critical_section t l = (Inr out, l1)" by blast
  show ?case
  proof (cases out)
    case Granted
    from history_step_granted[OF Cons.prems(1) le cs[unfolded Granted]]
    have "history_inv l1 (gs @ [t]) t" "limiter_inv l1 t" by blast+
    from Cons.IH[OF this srt] show ?thesis using cs Granted by simp
  next
    case (Wait w)
    from history_step_wait[OF Cons.prems(1) le cs[unfolded Wait]]
    have "history_inv l1 gs t" "limiter_inv l1 t" by blast+
    from Cons.IH[OF this srt] show ?thesis using cs Wait by simp
  qed
qed

lemma new_limiter_inv:
  "AsyncRateLimiter K T = Inr l0 \<Longrightarrow>
   history_inv l0 [] now \<and> limiter_inv l0 now \<and> max_calls l0 = K \<and> period l0 = T"
  by (auto simp: AsyncRateLimiter_def history_inv_def limiter_inv_def split: if_splits)

lemma critical_section_config:
  "critical_section t l = (r, l') \<Longrightarrow>
   max_calls l' = max_calls l \<and> period l' = period l \<and> lock l' = lock l"
  by (auto simp: critical_section_def Let_def split: if_splits list.splits)

lemma attempts_keep_config:
  "attempts l gs ts = Inr (l', gs') \<Longrightarrow> max_calls l' = max_calls l \<and> period l' = period l"
proof (induction ts arbitrary: l gs)
  case Nil
  then show ?case by simp
next
  case (Cons t ts)
  obtain r l1 where cs: "critical_section t l = (r, l1)" by (cases "critical_section t l")
  with Cons.prems obtain gs1 where "attempts l1 gs1 ts = Inr (l', gs')"
    by (auto split: sum.splits outcome.splits)
  from Cons.IH[OF this] critical_section_config[OF cs] show ?case by simp
qed

subsection \<open>Interleaved callers run critical sections one after another\<close>

lemma attempts_snoc:
  "attempts l gs (ts @ [t]) =
     (case attempts l gs ts of Inl e \<Rightarrow> Inl e | Inr (l', gs') \<Rightarrow> attempts l' gs' [t])"
proof (induction ts arbitrary: l gs)
  case Nil
  then show ?case by simp
next
  case (Cons a ts)
  show ?case
    by (cases "critical_section a l") (simp add: Cons.IH split: sum.splits outcome.splits)
qed

lemma critical_section_lock:
  "critical_section t l = (r, l1) \<Longrightarrow> critical_section t (l\<lparr>lock := k\<rparr>) = (r, l1\<lparr>lock := k\<rparr>)"
  by (auto simp: critical_section_def Let_def split: if_splits list.splits)

lemma serialised_relock:
  "serialised l0 s \<Longrightarrow> clock s' = clock s \<Longrightarrow> limiter s' = (limiter s)\<lparr>lock := k\<rparr> \<Longrightarrow>
   serialised l0 s'"
  unfolding serialised_def
  by (metis (no_types, lifting) rate_limiter.surjective rate_limiter.update_convs(4))


lemma ensure_lock_relock: "ensure_lock l = l\<lparr>lock := lock (ensure_lock l)\<rparr>"
  by (simp add: ensure_lock_def)

lemma serialised_body:
  assumes ser: "serialised l0 s" and pos: "0 < max_calls l0"
    and cs: "critical_section (clock s) (limiter s) = (r, l')"
  shows "serialised l0 (s\<lparr>limiter := l', pcs := p\<rparr>)"
proof -
  from ser obtain ts l gs where ts: "sorted ts" "\<forall>t \<in> set ts. t \<le> clock s"
    and run: "attempts l0 [] ts = Inr (l, gs)" and lim: "limiter s = l\<lparr>lock := lock (limiter s)\<rparr>"
    unfolding serialised_def by blast
  have "0 < max_calls l" using attempts_keep_config[OF run] pos by simp
  from critical_section_no_error[OF this, of "clock s"]
  obtain out l1 where cs1: "critical_section (clock s) l = (Inr out, l1)" by blast
  from critical_section_lock[OF cs1, of "lock (limiter s)"] lim cs
  have r: "r = Inr out" and l': "l' = l1\<lparr>lock := lock (limiter s)\<rparr>" by simp_all
  have srt: "sorted (ts @ [clock s])" using ts by (simp add: sorted_append)
  have "\<exists>gs'. attempts l0 [] (ts @ [clock s]) = Inr (l1, gs')"
    unfolding attempts_snoc run using cs1 by (cases out) simp_all
  then obtain gs' where run': "attempts l0 [] (ts @ [clock s]) = Inr (l1, gs')" by blast
  have "limiter (s\<lparr>limiter := l', pcs := p\<rparr>)
          = l1\<lparr>lock := lock (limiter (s\<lparr>limiter := l', pcs := p\<rparr>))\<rparr>"
    using l' by simp
  moreover have "\<forall>t \<in> set (ts @ [clock s]). t \<le> clock (s\<lparr>limiter := l', pcs := p\<rparr>)"
    using ts by simp
  ultimately show ?thesis unfolding serialised_def using srt run' by blast
qed

lemma serialised_step:
  assumes "step s s'" and "serialised l0 s" and "0 < max_calls l0"
  shows "serialised l0 s'"
  using assms
proof (induction rule: step.induct)
  case (call s i)
  then show ?case
    using serialised_relock[of l0 s _ "lock (ensure_lock (limiter s))"] ensure_lock_relock[of "limiter s"]
    by simp
next
  case (enter s i)
  then show ?case using serialised_relock[of l0 s _ "Some (Some i)"] by simp
next
  case (body s i r l')
  then show ?case using serialised_body by blast
next
  case (leave_return s i)
  then show ?case using serialised_relock[of l0 s _ "Some None"] by simp
next
  case (leave_raise s i e)
  then show ?case using serialised_relock[of l0 s _ "Some None"] by simp
next
  case (leave_wait s i w)
  then show ?case using serialised_relock[of l0 s _ "Some None"] by simp
next
  case (sleep s i w)
  then show ?case using serialised_relock[of l0 s _ "lock (limiter s)"] by simp
next
  case (wake s i u)
  then show ?case using serialised_relock[of l0 s _ "lock (limiter s)"] by simp
next
  case (tick d s)
  then show ?case unfolding serialised_def by (simp; fastforce)
qed

lemma reachable_serialised:
  assumes "reachable l0 s" and "0 < max_calls l0"
  shows "serialised l0 s"
  using assms
proof (induction rule: reachable.induct)
  case (init t0)
  have "attempts l0 [] [] = Inr (l0, [])" by simp
  then show ?case unfolding serialised_def by (intro exI[of _ "[]"] exI[of _ l0]) simp
next
  case (after s s')
  then show ?case using serialised_step by blast
qed

subsection \<open>The sliding-window bound\<close>

text \<open>
  C1. Sliding-window bound. Take a limiter built with capacity \<open>K\<close> and window \<open>T\<close>, and
  any sequence of critical sections of \<open>acquire\<close> calls, at the non-decreasing readings
  \<open>ts\<close> of the monotonic clock. Since \<open>ts\<close> is arbitrary, the statement holds after every
  critical section: none raises, \<open>events\<close> holds at most \<open>K\<close> timestamps, each of them
  at most the clock reading \<open>now\<close> of that critical section and less than \<open>T\<close> before
  it, and every window \<open>[u, u + T)\<close> contains at most \<open>K\<close> of the instants \<open>gs\<close> at
  which a slot was granted. And whatever the callers and their interleaving, the limiter
  of every reachable state is the outcome of such a sequence.
\<close>

theorem sliding_window_bound:
  assumes new: "AsyncRateLimiter K T = Inr l0"
  shows "(\<forall>ts. sorted ts \<longrightarrow>
           (\<exists>l gs. attempts l0 [] ts = Inr (l, gs) \<and>
              int (length (events l)) \<le> K \<and>
              (\<forall>e \<in> set (events l). ts \<noteq> [] \<and> e \<le> last ts \<and> last ts - e < T) \<and>
              (\<forall>u. int (length (filter (\<lambda>g. u \<le> g \<and> g < u + T) gs)) \<le> K))) \<and>
         (\<forall>s. reachable l0 s \<longrightarrow>
           (\<exists>ts l gs. sorted ts \<and> (\<forall>t \<in> set ts. t \<le> clock s) \<and>
              attempts l0 [] ts = Inr (l, gs) \<and> events (limiter s) = events l))"
proof (intro conjI allI impI)
  fix ts :: "time list" assume mono: "sorted ts"
  show "\<exists>l gs. attempts l0 [] ts = Inr (l, gs) \<and>
           int (length (events l)) \<le> K \<and>
           (\<forall>e \<in> set (events l). ts \<noteq> [] \<and> e \<le> last ts \<and> last ts - e < T) \<and>
           (\<forall>u. int (length (filter (\<lambda>g. u \<le> g \<and> g < u + T) gs)) \<le> K)"
  proof (cases ts)
    case Nil
    then show ?thesis using new by (auto simp: AsyncRateLimiter_def split: if_splits)
  next
    case (Cons t ts')
    from new_limiter_inv[OF new, of t]
    have h0: "history_inv l0 [] t" "limiter_inv l0 t" and cfg: "max_calls l0 = K" "period l0 = T"
      by blast+
    have "sorted (t # ts)" using mono Cons by simp
    from attempts_inv[OF h0 this]
    obtain l gs where r: "attempts l0 [] ts = Inr (l, gs)"
      and h: "history_inv l gs (last (t # ts))" and li: "limiter_inv l (last (t # ts))" by blast
    have lst: "last (t # ts) = last ts" using Cons by simp
    have cfg': "max_calls l = K" "period l = T" using attempts_keep_config[OF r] cfg by simp_all
    have w: "\<forall>u. int (length (filter (in_window T u) gs)) \<le> K"
      using h cfg' unfolding history_inv_def by simp
    have "in_window T u = (\<lambda>g. u \<le> g \<and> g < u + T)" for u
      by (rule ext) (simp add: in_window_def)
    with w have w': "\<forall>u. int (length (filter (\<lambda>g. u \<le> g \<and> g < u + T) gs)) \<le> K" by simp
    show ?thesis using r li w' cfg' Cons unfolding limiter_inv_def lst by auto
  qed
next
  fix s assume reach: "reachable l0 s"
  have "0 < max_calls l0" using new by (auto simp: AsyncRateLimiter_def split: if_splits)
  from reachable_serialised[OF reach this]
  obtain ts l gs where "sorted ts" "\<forall>t \<in> set ts. t \<le> clock s" "attempts l0 [] ts = Inr (l, gs)"
    and lim: "limiter s = l\<lparr>lock := lock (limiter s)\<rparr>"
    unfolding serialised_def by blast
  moreover have "events (limiter s) = events l" by (subst lim) simp
  ultimately show "\<exists>ts l gs. sorted ts \<and> (\<forall>t \<in> set ts. t \<le> clock s) \<and>
              attempts l0 [] ts = Inr (l, gs) \<and> events (limiter s) = events l"
    by blast
qed

theorem sliding_window_bound_witness:
  "attempts \<lparr>max_calls = 2, period = 1, events = [], lock = None\<rparr> [] [0, 1/10, 1/5, 21/20]
     = Inr (\<lparr>max_calls = 2, period = 1, events = [1/10, 21/20], lock = None\<rparr>, [0, 1/10, 21/20]) \<and>
   (\<forall>u. int (length (filter (\<lambda>g. u \<le> g \<and> g < u + 1) [0, 1/10, 21/20 :: real])) \<le> 2)"
proof -
  have new: "AsyncRateLimiter 2 1 = Inr \<lparr>max_calls = 2, period = 1, events = [], lock = None\<rparr>"
    by (simp add: AsyncRateLimiter_def)
  have mono: "sorted [0, 1/10, 1/5, 21/20 :: real]" by simp
  have run: "attempts \<lparr>max_calls = 2, period = 1, events = [], lock = None\<rparr> [] [0, 1/10, 1/5, 21/20]
     = Inr (\<lparr>max_calls = 2, period = 1, events = [1/10, 21/20], lock = None\<rparr>, [0, 1/10, 21/20])"
    by (simp add: critical_section_def)
  from sliding_window_bound[OF new] mono run show ?thesis by simp
qed

subsection \<open>acquire returns\<close>

lemma acquire_loop_returns:
  "0 < max_calls l \<Longrightarrow>
   \<exists>l' t'. acquire_loop lag l t = Inr (l', t') \<and> t \<le> t' \<and> events l' \<noteq> [] \<and> last (events l') = t'"
proof (induction lag l t rule: acquire_loop.induct)
  case (1 lag l t)
  from critical_section_no_error[OF "1.prems", of t]
  obtain out l1 where cs: "critical_section t l = (Inr out, l1)" and mc: "max_calls l1 = max_calls l"
    by blast
  show ?case
  proof (cases out)
    case Granted
    then show ?thesis using cs critical_section_granted[of t l l1] by simp
  next
    case (Wait w)
    let ?t1 = "t + max w 0 + max 0 (lag t)"
    have "0 < max_calls l1" using mc "1.prems" by simp
    from "1.IH"[OF cs[unfolded Wait, symmetric] refl refl this]
    obtain l' t' where r: "acquire_loop lag l1 ?t1 = Inr (l', t')" "?t1 \<le> t'"
       "events l' \<noteq> []" "last (events l') = t'" by blast
    have "t \<le> ?t1" by (simp add: max_def)
    then show ?thesis using cs Wait r by simp
  qed
qed

lemma no_raise_step:
  assumes "step s s'" and "no_raise_inv s"
  shows "no_raise_inv s'"
  using assms
proof (induction rule: step.induct)
  case (body s i r l')
  have pos: "0 < max_calls (limiter s)" using body.prems by (simp add: no_raise_inv_def)
  from critical_section_no_error[OF pos, of "clock s"] body.hyps(2)
  obtain out where "r = Inr out" "max_calls l' = max_calls (limiter s)" by auto
  then show ?case using body.prems by (auto simp: no_raise_inv_def)
qed (auto simp: no_raise_inv_def ensure_lock_def)

lemma no_raise_reachable:
  assumes "reachable l0 s" and "0 < max_calls l0"
  shows "no_raise_inv s"
  using assms
proof (induction rule: reachable.induct)
  case (init t0)
  then show ?case by (simp add: no_raise_inv_def)
next
  case (after s s')
  then show ?case using no_raise_step by blast
qed

text \<open>
  C9. Construction raises (a \<open>ValueError\<close>) exactly when \<open>max_calls \<le> 0\<close> or
  \<open>period \<le> 0\<close>, so every limiter that exists has a positive capacity. On a limiter
  with a positive capacity, whatever its events, the clock and the scheduling lag,
  \<open>acquire\<close> called by a single caller raises nothing and returns, at a time \<open>t'\<close> no
  earlier than the call, with its own grant \<open>t'\<close> recorded last in \<open>events\<close>. And with
  any number of callers, in any interleaving, no critical section on a constructed
  limiter ever raises.
\<close>

theorem rate_limiter_failure_contract:
  "((\<exists>msg. AsyncRateLimiter mc p = Inl (ValueError msg)) \<longleftrightarrow> (mc \<le> 0 \<or> p \<le> 0)) \<and>
   (\<forall>l0. AsyncRateLimiter mc p = Inr l0 \<longrightarrow> 0 < max_calls l0) \<and>
   (0 < max_calls l \<longrightarrow>
      (\<exists>l' t'. acquire lag l t = Inr (l', t') \<and> t \<le> t' \<and> events l' \<noteq> [] \<and> last (events l') = t')) \<and>
   (\<forall>l0 s i e. AsyncRateLimiter mc p = Inr l0 \<and> reachable l0 s \<longrightarrow> pcs s i \<noteq> Leaving (Inl e))"
proof (intro conjI allI impI)
  show "(\<exists>msg. AsyncRateLimiter mc p = Inl (ValueError msg)) \<longleftrightarrow> (mc \<le> 0 \<or> p \<le> 0)"
    by (auto simp: AsyncRateLimiter_def)
next
  fix l0 assume "AsyncRateLimiter mc p = Inr l0"
  then show "0 < max_calls l0" by (auto simp: AsyncRateLimiter_def split: if_splits)
next
  assume "0 < max_calls l"
  then show "\<exists>l' t'. acquire lag l t = Inr (l', t') \<and> t \<le> t' \<and> events l' \<noteq> [] \<and> last (events l') = t'"
    unfolding acquire_def using acquire_loop_returns[of "ensure_lock l" lag t]
    by (simp add: ensure_lock_def split: if_splits)
next
  fix l0 s i e assume h: "AsyncRateLimiter mc p = Inr l0 \<and> reachable l0 s"
  then have "0 < max_calls l0" by (auto simp: AsyncRateLimiter_def split: if_splits)
  from no_raise_reachable[OF _ this] h show "pcs s i \<noteq> Leaving (Inl e)"
    unfolding no_raise_inv_def by blast
qed

theorem rate_limiter_failure_contract_witness:
  "(\<exists>msg. AsyncRateLimiter 0 1 = Inl (ValueError msg)) \<and>
   (\<exists>msg. AsyncRateLimiter 3 0 = Inl (ValueError msg)) \<and>
   (\<exists>l0. AsyncRateLimiter 1 1 = Inr l0 \<and> 0 < max_calls l0) \<and>
   acquire (\<lambda>_. 0) \<lparr>max_calls = 1, period = 1, events = [0], lock = None\<rparr> (1/2)
     = Inr (\<lparr>max_calls = 1, period = 1, events = [1], lock = Some None\<rparr>, 1) \<and>
   reachable \<lparr>max_calls = 1, period = 1, events = [], lock = None\<rparr>
     \<lparr>clock = 0, limiter = \<lparr>max_calls = 1, period = 1, events = [0], lock = Some (Some 0)\<rparr>,
      pcs = (\<lambda>_. Idle)(0 := Leaving (Inr Granted))\<rparr> \<and>
   ((\<lambda>_. Idle)(0 := Leaving (Inr Granted))) 0 \<noteq> Leaving (Inl (IndexError ''deque index out of range''))"
proof -
  let ?L = "\<lambda>es k. \<lparr>max_calls = 1, period = 1, events = es, lock = k\<rparr>"
  let ?S = "\<lambda>es k p. \<lparr>clock = 0::real, limiter = ?L es k, pcs = p\<rparr>"
  let ?I = "(\<lambda>_. Idle) :: nat \<Rightarrow> pc"
  have run: "acquire (\<lambda>_. 0) (?L [0] None) (1/2) = Inr (?L [1] (Some None), 1)"
    by (simp add: acquire_def ensure_lock_def critical_section_def)
  have new: "AsyncRateLimiter 1 1 = Inr (?L [] None)" by (simp add: AsyncRateLimiter_def)
  have r0: "reachable (?L [] None) (?S [] None ?I)" by (rule reachable.init)
  have r1: "reachable (?L [] None) (?S [] (Some None) (?I(0 := AtLock)))"
    using reachable.after[OF r0 step.call[of _ 0]] by (simp add: ensure_lock_def)
  have r2: "reachable (?L [] None) (?S [] (Some (Some 0)) (?I(0 := InCS)))"
    using reachable.after[OF r1 step.enter[of _ 0]] by simp
  have r3: "reachable (?L [] None) (?S [0] (Some (Some 0)) (?I(0 := Leaving (Inr Granted))))"
    using reachable.after[OF r2 step.body[of _ 0 "Inr Granted" "?L [0] (Some (Some 0))"]]
    by (simp add: critical_section_def)
  from rate_limiter_failure_contract[of 1 1 "?L [0] None" "\<lambda>_. 0" "1/2"] new r3
  have 5: "pcs (?S [0] (Some (Some 0)) (?I(0 := Leaving (Inr Granted)))) 0
             \<noteq> Leaving (Inl (IndexError ''deque index out of range''))"
    by blast
  show ?thesis
    using rate_limiter_failure_contract[of 0 1]
      rate_limiter_failure_contract[of 3 0]
      rate_limiter_failure_contract[of 1 1 "?L [0] None" "\<lambda>_. 0" "1/2"]
      run r3 5
    by (simp add: AsyncRateLimiter_def)
qed

subsection \<open>The lock under interleaving\<close>

lemma mutual_exclusion:
  "lock_inv s \<Longrightarrow> holds_lock (pcs s i) \<Longrightarrow> holds_lock (pcs s j) \<Longrightarrow> i = j"
  unfolding lock_inv_def by (metis option.inject)

lemma lock_inv_unlock:
  assumes inv: "lock_inv s" and i: "holds_lock (pcs s i)" and p: "\<not> holds_lock p"
  shows "lock_inv (s\<lparr>limiter := (limiter s)\<lparr>lock := Some None\<rparr>, pcs := (pcs s)(i := p)\<rparr>)"
proof -
  have "\<not> holds_lock (pcs s j)" if "j \<noteq> i" for j
    using mutual_exclusion[OF inv i] that by blast
  then show ?thesis using p by (auto simp: lock_inv_def)
qed

lemma lock_inv_move:
  assumes inv: "lock_inv s" and p: "holds_lock p = holds_lock (pcs s i)"
  shows "lock_inv (s\<lparr>pcs := (pcs s)(i := p)\<rparr>)"
  using inv p by (auto simp: lock_inv_def)

lemma lock_inv_step:
  assumes "step s s'" and "lock_inv s"
  shows "lock_inv s'"
  using assms
proof (induction rule: step.induct)
  case (call s i)
  then show ?case by (auto simp: lock_inv_def ensure_lock_def)
next
  case (enter s i)
  then show ?case by (auto simp: lock_inv_def)
next
  case (body s i r l')
  then show ?case using critical_section_config[of "clock s" "limiter s" r l']
    by (auto simp: lock_inv_def)
next
  case (leave_return s i)
  then show ?case using lock_inv_unlock[of s i Idle] by simp
next
  case (leave_raise s i e)
  then show ?case using lock_inv_unlock[of s i Idle] by simp
next
  case (leave_wait s i w)
  then show ?case using lock_inv_unlock[of s i "AfterWith w"] by simp
next
  case (sleep s i w)
  then show ?case using lock_inv_move[of s "Sleeping (clock s + max w 0)" i] by simp
next
  case (wake s i u)
  then show ?case using lock_inv_move[of s AtLock i] by simp
next
  case (tick d s)
  then show ?case by (simp add: lock_inv_def)
qed

lemma lock_inv_reachable:
  assumes "reachable l0 s" and "\<forall>i. lock l0 \<noteq> Some (Some i)"
  shows "lock_inv s"
  using assms
proof (induction rule: reachable.induct)
  case (init t0)
  then show ?case by (simp add: lock_inv_def)
next
  case (after s s')
  then show ?case using lock_inv_step by blast
qed

lemma lock_created_step:
  assumes "step s s'" and "lock_created_inv s"
  shows "lock_created_inv s'"
  using assms
proof (induction rule: step.induct)
  case (body s i r l')
  then show ?case using critical_section_config[of "clock s" "limiter s" r l']
    by (auto simp: lock_created_inv_def)
qed (auto simp: lock_created_inv_def ensure_lock_def)

lemma lock_created_reachable:
  assumes "reachable l0 s"
  shows "lock_created_inv s"
  using assms
proof (induction rule: reachable.induct)
  case (init t0)
  then show ?case by (simp add: lock_created_inv_def)
next
  case (after s s')
  then show ?case using lock_created_step by blast
qed

lemma events_change_in_body:
  assumes "step s s'" and "events (limiter s') \<noteq> events (limiter s)"
  shows "\<exists>i. pcs s i = InCS"
  using assms by (induction rule: step.induct) (auto simp: ensure_lock_def split: if_splits)

text \<open>
  C10. In every state a system of callers can reach, whatever the interleaving: the lock
  is held by task \<open>i\<close> exactly while \<open>i\<close> is inside the \<open>with\<close> block (about to run, or
  having run, the evict/check/append body); a task that is sleeping does not hold it;
  \<open>events\<close> changes only in a step of the task inside the block, which holds the lock;
  and when every other task is idle, waiting for the lock or sleeping, a task waiting for
  the lock can enter.
\<close>

theorem lock_released_while_sleeping:
  assumes new: "AsyncRateLimiter K T = Inr l0" and reach: "reachable l0 s"
  shows "(\<forall>i. lock (limiter s) = Some (Some i) \<longleftrightarrow> pcs s i = InCS \<or> (\<exists>r. pcs s i = Leaving r)) \<and>
         (\<forall>i u. pcs s i = Sleeping u \<longrightarrow> lock (limiter s) \<noteq> Some (Some i)) \<and>
         (\<forall>s'. step s s' \<and> events (limiter s') \<noteq> events (limiter s) \<longrightarrow>
              (\<exists>i. pcs s i = InCS \<and> lock (limiter s) = Some (Some i))) \<and>
         (\<forall>j. pcs s j = AtLock \<and> (\<forall>i. pcs s i \<in> {Idle, AtLock} \<or> (\<exists>u. pcs s i = Sleeping u)) \<longrightarrow>
              (\<exists>s'. step s s' \<and> pcs s' j = InCS))"
proof -
  have "lock l0 = None" using new by (auto simp: AsyncRateLimiter_def split: if_splits)
  then have "\<forall>i. lock l0 \<noteq> Some (Some i)" by simp
  from lock_inv_reachable[OF reach this] have inv: "lock_inv s" .
  have hl: "holds_lock p \<longleftrightarrow> p = InCS \<or> (\<exists>r. p = Leaving r)" for p by (cases p) auto
  have 1: "\<forall>i. lock (limiter s) = Some (Some i) \<longleftrightarrow> pcs s i = InCS \<or> (\<exists>r. pcs s i = Leaving r)"
    using inv hl unfolding lock_inv_def by simp
  have 2: "\<forall>i u. pcs s i = Sleeping u \<longrightarrow> lock (limiter s) \<noteq> Some (Some i)"
    using 1 by auto
  have 3: "\<forall>s'. step s s' \<and> events (limiter s') \<noteq> events (limiter s) \<longrightarrow>
              (\<exists>i. pcs s i = InCS \<and> lock (limiter s) = Some (Some i))"
    using events_change_in_body 1 by blast
  have 4: "\<exists>s'. step s s' \<and> pcs s' j = InCS"
    if j: "pcs s j = AtLock" and others: "\<forall>i. pcs s i \<in> {Idle, AtLock} \<or> (\<exists>u. pcs s i = Sleeping u)" for j
  proof -
    have "\<not> holds_lock (pcs s i)" for i using others[rule_format, of i] by auto
    then have free: "\<forall>i. lock (limiter s) \<noteq> Some (Some i)" using inv unfolding lock_inv_def by simp
    have "lock (limiter s) \<noteq> None"
      using lock_created_reachable[OF reach] j unfolding lock_created_inv_def by auto
    with free have "lock (limiter s) = Some None" by (cases "lock (limiter s)") auto
    from step.enter[OF j this] show ?thesis by (intro exI conjI, assumption) simp
  qed
  show ?thesis using 1 2 3 4 by blast
qed

theorem lock_released_while_sleeping_witness:
  "reachable \<lparr>max_calls = 1, period = 1, events = [], lock = None\<rparr>
     \<lparr>clock = 0, limiter = \<lparr>max_calls = 1, period = 1, events = [0], lock = Some None\<rparr>,
        pcs = (\<lambda>_. Idle)(1 := Sleeping 1, 2 := AtLock)\<rparr> \<and>
   pcs \<lparr>clock = 0, limiter = \<lparr>max_calls = 1, period = 1, events = [0], lock = Some None\<rparr>,
        pcs = (\<lambda>_. Idle)(1 := Sleeping 1, 2 := AtLock)\<rparr> 1 = Sleeping 1 \<and>
   lock (limiter \<lparr>clock = 0, limiter = \<lparr>max_calls = 1, period = 1, events = [0], lock = Some None\<rparr>,
        pcs = (\<lambda>_. Idle)(1 := Sleeping 1, 2 := AtLock)\<rparr>) \<noteq> Some (Some 1) \<and>
   (\<exists>s'. step \<lparr>clock = 0, limiter = \<lparr>max_calls = 1, period = 1, events = [0], lock = Some None\<rparr>,
        pcs = (\<lambda>_. Idle)(1 := Sleeping 1, 2 := AtLock)\<rparr> s' \<and> pcs s' 2 = InCS)"
proof -
  let ?L = "\<lambda>es k. \<lparr>max_calls = 1, period = 1, events = es, lock = k\<rparr>"
  let ?S = "\<lambda>es k p. \<lparr>clock = 0::real, limiter = ?L es k, pcs = p\<rparr>"
  let ?I = "(\<lambda>_. Idle) :: nat \<Rightarrow> pc"
  have new: "AsyncRateLimiter 1 1 = Inr (?L [] None)" by (simp add: AsyncRateLimiter_def)
  have r0: "reachable (?L [] None) (?S [] None ?I)" by (rule reachable.init)
  have r1: "reachable (?L [] None) (?S [] (Some None) (?I(0 := AtLock)))"
    using reachable.after[OF r0 step.call[of _ 0]] by (simp add: ensure_lock_def)
  have r2: "reachable (?L [] None) (?S [] (Some (Some 0)) (?I(0 := InCS)))"
    using reachable.after[OF r1 step.enter[of _ 0]] by simp
  have r3: "reachable (?L [] None) (?S [0] (Some (Some 0)) (?I(0 := Leaving (Inr Granted))))"
    using reachable.after[OF r2 step.body[of _ 0 "Inr Granted" "?L [0] (Some (Some 0))"]]
    by (simp add: critical_section_def)
  have idle: "?I(0 := Idle) = ?I" by auto
  have r4: "reachable (?L [] None) (?S [0] (Some None) ?I)"
    using reachable.after[OF r3 step.leave_return[of _ 0]] by (simp add: idle)
  have r5: "reachable (?L [] None) (?S [0] (Some None) (?I(1 := AtLock)))"
    using reachable.after[OF r4 step.call[of _ 1]] by (simp add: ensure_lock_def)
  have r6: "reachable (?L [] None) (?S [0] (Some (Some 1)) (?I(1 := InCS)))"
    using reachable.after[OF r5 step.enter[of _ 1]] by simp
  have r7: "reachable (?L [] None) (?S [0] (Some (Some 1)) (?I(1 := Leaving (Inr (Wait 1)))))"
    using reachable.after[OF r6 step.body[of _ 1 "Inr (Wait 1)" "?L [0] (Some (Some 1))"]]
    by (simp add: critical_section_def)
  have r8: "reachable (?L [] None) (?S [0] (Some None) (?I(1 := AfterWith 1)))"
    using reachable.after[OF r7 step.leave_wait[of _ 1 1]] by simp
  have r9: "reachable (?L [] None) (?S [0] (Some None) (?I(1 := Sleeping 1)))"
    using reachable.after[OF r8 step.sleep[of _ 1 1]] by simp
  have r10: "reachable (?L [] None) (?S [0] (Some None) (?I(1 := Sleeping 1, 2 := AtLock)))"
    using reachable.after[OF r9 step.call[of _ 2]] by (simp add: ensure_lock_def)
  from lock_released_while_sleeping[OF new r10] r10
  show ?thesis by simp
qed

section \<open>Properties of the Kubernetes adapter\<close>

lemma demo_agent_simp:
  "demo_agent =
       \<lparr>agent_name = ''k8s-demo-agent'', initialized = False, connection_persistence = Some True,
        k8s_image = Some ''ghcr.io/sands/mcp-agent:latest'', k8s_namespace = ''default'',
        k8s_replicas = 1, k8s_labels = [(''app'', ''mcp-agent-k8s-demo-agent'')],
        k8s_env = [(''EXAMPLE_VAR'', ''value'')],
        k8s_resources = [], k8s_port = None, k8s_autoscale = False,
        k8s_hpa_min_replicas = 1, k8s_hpa_max_replicas = 3, k8s_hpa_cpu = None,
        k8s_manager = None, deployment_name = ''mcp-agent-k8s-demo-agent''\<rparr>"
  by (simp add: demo_agent_def K8sAgentAdapter_init_def)

lemma accepted_simps [simp]:
  "accepted []" "accepted [Str s]" "\<not> accepted [Exc e]" "\<not> accepted (x # y # zs)"
  by (simp_all add: accepted_def split: list.splits log_arg.splits)

lemma log_accepted:
  "accepted args \<Longrightarrow> log E lv fmt args w = (Inr (), w\<lparr>logs := logs w @ [(lv, fmt, args)]\<rparr>)"
  by (simp add: log_def)

lemma log_rejected:
  "\<not> accepted args \<Longrightarrow> log E lv fmt args w = (Inl (logger_error E lv fmt args), w)"
  by (simp add: log_def)

lemma log_frame:
  "log E lv fmt args w = (r, w') \<Longrightarrow>
   calls w' = calls w \<and> cluster w' = cluster w \<and> time_now w' = time_now w"
  by (auto simp: log_def split: if_splits)

text \<open>
  C6. Idempotency guard of \<open>initialize\<close>: on an adapter that is already initialized,
  \<open>initialize(force=False)\<close> returns at once; the adapter and the world (cluster, clock,
  remote calls issued, log) are exactly what they were, so no remote call is made.
\<close>

theorem initialize_guard:
  "initialized a \<Longrightarrow> \<not> force \<Longrightarrow> initialize E force a w = (Inr (), a, w)"
  by (simp add: initialize_def)

theorem initialize_guard_witness:
  "initialize (accepting 0) False (demo_agent\<lparr>initialized := True\<rparr>) (fresh ())
     = (Inr (), demo_agent\<lparr>initialized := True\<rparr>, fresh ()) \<and>
   calls (fresh ()) = ([] :: api_call list)"
  using initialize_guard[of "demo_agent\<lparr>initialized := True\<rparr>" False "accepting 0" "fresh ()"]
  by (simp add: fresh_def)

lemma calls_remote: "remote E c w = (r, w') \<Longrightarrow> calls w' = calls w @ [c]"
  by (auto simp: remote_def split: prod.splits)

lemma remote_reply: "remote E c w = (r, w') \<Longrightarrow> r = fst (api E c (cluster w))"
  by (auto simp: remote_def split: prod.splits)

lemma scale_deployment_result:
  "fst (scale_deployment E m name replicas w)
     = (case fst (api E (patch_namespaced_deployment_scale name (namespace m) replicas) (cluster w)) of
          Inr _ \<Rightarrow> Inr ()
        | Inl e \<Rightarrow>
            (case e of
               ApiException status \<Rightarrow>
                 Inl (logger_error E ERROR ''Failed to scale deployment %s: %s'' [Str name, Exc e])
             | _ \<Rightarrow> Inl e))"
  by (simp add: scale_deployment_def remote_def log_rejected split: prod.splits sum.splits exn.splits)

lemma scale_deployment_calls:
  "calls (snd (scale_deployment E m name replicas w))
     = calls w @ [patch_namespaced_deployment_scale name (namespace m) replicas]"
  by (simp add: scale_deployment_def remote_def log_rejected split: prod.splits sum.splits exn.splits)

text \<open>
  C2, as the code has it. \<open>scale\<close> validates nothing: for every replica count, negative
  ones included, once the manager is there it issues exactly one remote call, the scale
  patch carrying that count, and returns normally when the cluster accepts it. Only a
  failure to build the manager ends \<open>scale\<close> before the remote call.
\<close>

theorem scale_issues_patch_for_any_count:
  "(\<forall>e. ensure_k8s_manager E a = Inl e \<longrightarrow> scale E replicas a w = (Inl e, a, w)) \<and>
   (\<forall>a1 m. ensure_k8s_manager E a = Inr (a1, m) \<longrightarrow>
      calls (snd (snd (scale E replicas a w)))
        = calls w @ [patch_namespaced_deployment_scale (deployment_name a) (namespace m) replicas] \<and>
      (\<forall>v. fst (api E (patch_namespaced_deployment_scale (deployment_name a) (namespace m) replicas)
                  (cluster w)) = Inr v \<longrightarrow>
           fst (scale E replicas a w) = Inr ()))"
proof (intro conjI allI impI)
  fix e assume "ensure_k8s_manager E a = Inl e"
  then show "scale E replicas a w = (Inl e, a, w)" by (simp add: scale_def)
next
  fix a1 m assume en: "ensure_k8s_manager E a = Inr (a1, m)"
  then have dn: "deployment_name a1 = deployment_name a"
    by (auto simp: ensure_k8s_manager_def split: option.splits sum.splits)
  show "calls (snd (snd (scale E replicas a w)))
          = calls w @ [patch_namespaced_deployment_scale (deployment_name a) (namespace m) replicas]"
    using en dn scale_deployment_calls[of E m "deployment_name a" replicas w]
    by (simp add: scale_def case_prod_beta)
next
  fix a1 m v assume en: "ensure_k8s_manager E a = Inr (a1, m)"
    and ok: "fst (api E (patch_namespaced_deployment_scale (deployment_name a) (namespace m) replicas)
                  (cluster w)) = Inr v"
  from en have dn: "deployment_name a1 = deployment_name a"
    by (auto simp: ensure_k8s_manager_def split: option.splits sum.splits)
  show "fst (scale E replicas a w) = Inr ()"
    using en dn ok scale_deployment_result[of E m "deployment_name a" replicas w]
    by (simp add: scale_def case_prod_beta)
qed

theorem scale_issues_patch_for_any_count_witness:
  "fst (scale remembering (-1) demo_agent (fresh True)) = Inr () \<and>
   calls (snd (snd (scale remembering (-1) demo_agent (fresh True))))
     = [patch_namespaced_deployment_scale ''mcp-agent-k8s-demo-agent'' ''default'' (-1)] \<and>
   (\<exists>msg. scale ((accepting 0)\<lparr>client_ok := False\<rparr>) (-1) demo_agent (fresh ())
            = (Inl (RuntimeError msg), demo_agent, fresh ()))"
proof -
  have en: "ensure_k8s_manager remembering demo_agent
     = Inr (demo_agent\<lparr>k8s_manager := Some \<lparr>namespace = ''default'', kubeconfig = None\<rparr>\<rparr>,
            \<lparr>namespace = ''default'', kubeconfig = None\<rparr>)"
    by (simp add: ensure_k8s_manager_def KubernetesManager_init_def remembering_def demo_agent_simp)
  have no: "\<exists>msg. ensure_k8s_manager ((accepting 0)\<lparr>client_ok := False\<rparr>) demo_agent
                  = Inl (RuntimeError msg)"
    by (simp add: ensure_k8s_manager_def KubernetesManager_init_def accepting_def demo_agent_simp)
  then obtain msg where no': "ensure_k8s_manager ((accepting 0)\<lparr>client_ok := False\<rparr>) demo_agent
                  = Inl (RuntimeError msg)" by blast
  from scale_issues_patch_for_any_count[of "(accepting 0)\<lparr>client_ok := False\<rparr>" demo_agent "-1" "fresh ()"] no'
  have 3: "scale ((accepting 0)\<lparr>client_ok := False\<rparr>) (-1) demo_agent (fresh ())
            = (Inl (RuntimeError msg), demo_agent, fresh ())" by blast
  from scale_issues_patch_for_any_count[of remembering demo_agent "-1" "fresh True"] en
  have "fst (scale remembering (-1) demo_agent (fresh True)) = Inr () \<and>
   calls (snd (snd (scale remembering (-1) demo_agent (fresh True))))
     = [patch_namespaced_deployment_scale ''mcp-agent-k8s-demo-agent'' ''default'' (-1)]"
    by (simp add: remembering_def fresh_def demo_agent_simp)
  with 3 show ?thesis by blast
qed

text \<open>
  The claim C2 as stated fails: \<open>scale(-1)\<close> on a cluster that accepts the patch issues
  the remote call with \<open>replicas = -1\<close> and returns normally.
\<close>

theorem scale_accepts_negative_count:
  "fst (scale (accepting 0) (-1) demo_agent (fresh ())) = Inr () \<and>
   calls (snd (snd (scale (accepting 0) (-1) demo_agent (fresh ()))))
     = [patch_namespaced_deployment_scale ''mcp-agent-k8s-demo-agent'' ''default'' (-1)]"
  by (simp add: scale_def ensure_k8s_manager_def KubernetesManager_init_def accepting_def
      demo_agent_simp scale_deployment_def remote_def fresh_def)







text \<open>
  C8, as the code has it. With \<open>connection_persistence\<close> set, \<open>shutdown\<close> returns
  normally, issues no remote call (so no delete of the autoscaler or of the deployment),
  leaves the cluster as it is and leaves the adapter unchanged: \<open>initialized\<close> keeps its
  value, and the persistence flag stays set.
\<close>

theorem shutdown_persistence_leaves_everything:
  "connection_persistence a = Some True \<Longrightarrow>
   fst (shutdown E a w) = Inr () \<and>
   fst (snd (shutdown E a w)) = a \<and>
   calls (snd (snd (shutdown E a w))) = calls w \<and>
   cluster (snd (snd (shutdown E a w))) = cluster w"
  by (simp add: shutdown_def log_accepted)

theorem shutdown_persistence_leaves_everything_witness:
  "fst (shutdown (accepting 0)
           (demo_agent\<lparr>initialized := True, connection_persistence := Some True,
                        k8s_manager := Some \<lparr>namespace = ''default'', kubeconfig = None\<rparr>\<rparr>) (fresh ()))
     = Inr () \<and>
   fst (snd (shutdown (accepting 0)
           (demo_agent\<lparr>initialized := True, connection_persistence := Some True,
                        k8s_manager := Some \<lparr>namespace = ''default'', kubeconfig = None\<rparr>\<rparr>) (fresh ())))
     = demo_agent\<lparr>initialized := True, connection_persistence := Some True,
                   k8s_manager := Some \<lparr>namespace = ''default'', kubeconfig = None\<rparr>\<rparr> \<and>
   calls (snd (snd (shutdown (accepting 0)
           (demo_agent\<lparr>initialized := True, connection_persistence := Some True,
                        k8s_manager := Some \<lparr>namespace = ''default'', kubeconfig = None\<rparr>\<rparr>) (fresh ()))))
     = []"
  using shutdown_persistence_leaves_everything[of
      "demo_agent\<lparr>initialized := True, connection_persistence := Some True,
                  k8s_manager := Some \<lparr>namespace = ''default'', kubeconfig = None\<rparr>\<rparr>"
      "accepting 0" "fresh ()"]
  by (simp add: fresh_def)

text \<open>
  The claim C8 as stated fails in its last part: after \<open>shutdown\<close> with persistence an
  initialized adapter is the same adapter, still initialized, and a following
  \<open>initialize(force=False)\<close> is a no-op on it; there is no transition to a terminal
  condition. Without persistence the same adapter ends with \<open>initialized = False\<close>.
\<close>

theorem shutdown_persistence_stays_ready:
  "(case shutdown (accepting 0)
           (demo_agent\<lparr>initialized := True, connection_persistence := Some True,
                        k8s_manager := Some \<lparr>namespace = ''default'', kubeconfig = None\<rparr>\<rparr>) (fresh ()) of
      (r, a', w') \<Rightarrow>
        r = Inr () \<and> initialized a' \<and>
        a' = demo_agent\<lparr>initialized := True, connection_persistence := Some True,
                         k8s_manager := Some \<lparr>namespace = ''default'', kubeconfig = None\<rparr>\<rparr> \<and>
        initialize (accepting 0) False a' w' = (Inr (), a', w')) \<and>
   (case shutdown (accepting 0)
           (demo_agent\<lparr>initialized := True, connection_persistence := Some False,
                        k8s_manager := Some \<lparr>namespace = ''default'', kubeconfig = None\<rparr>\<rparr>) (fresh ()) of
      (r, a', w') \<Rightarrow> r = Inr () \<and> \<not> initialized a')"
  by (simp add: shutdown_def initialize_def log_accepted fresh_def accepting_def demo_agent_simp
      delete_hpa_def delete_deployment_def remote_def)

lemma create_deployment_except_404:
  "create_deployment_except E m name d (ApiException 404) w
     = (case remote E (create_namespaced_deployment (namespace m) d)
               (w\<lparr>logs := logs w @ [(INFO, ''Creating deployment %s'', [Str name])]\<rparr>) of
          (r, w') \<Rightarrow> (returned r, w'))"
  by (simp add: create_deployment_except_def log_accepted)

lemma create_deployment_except_calls:
  "create_deployment_except E m name body e wx = (ry, wy) \<Longrightarrow> \<exists>rest. calls wy = calls wx @ rest"
  by (auto simp: create_deployment_except_def remote_def log_def
      split: exn.splits if_splits prod.splits sum.splits)

lemma deployment_body_fields:
  "deployment_body name img labels port replicas env_vars resources = Inr body \<Longrightarrow>
   metadata_name body = name \<and> spec_replicas body = replicas \<and>
   map container_image (template_containers body) = [img] \<and>
   map container_env (template_containers body) = [case env_vars of None \<Rightarrow> [] | Some d \<Rightarrow> d] \<and>
   map (Inr \<circ> container_resources) (template_containers body)
     = [V1ResourceRequirements_init (case resources of None \<Rightarrow> [] | Some d \<Rightarrow> d)]"
  by (auto simp: deployment_body_def Let_def split: sum.splits)

text \<open>
  C5, as the code has it. \<open>create_deployment\<close> builds the request body first; when that
  raises (a key of \<open>resources\<close> other than \<open>claims\<close>, \<open>limits\<close>, \<open>requests\<close>) the
  method raises the same and nothing else has happened. When the body is built (it
  carries the name, the replica count, the image, the environment and the resources), the
  method reads, then writes: the first remote call is the read of the deployment by name;
  if the read raises \<open>ApiException(404)\<close>, the only other call is the create of the
  body, and the result is the create's; if the read returns, the next call is the patch
  with the body, and when the patch returns too, these are the only two calls, no create
  is issued and the method returns normally. So a second call on a resource the first
  one created takes the patch path.
\<close>

theorem reconcile_read_then_write:
  assumes run: "create_deployment E m name img labels port replicas env_vars resources w = (r, w')"
    and rd: "remote E (read_namespaced_deployment name (namespace m)) w = (r1, w1)"
  shows "(\<forall>e. deployment_body name img labels port replicas env_vars resources = Inl e \<longrightarrow>
            r = Inl e \<and> w' = w) \<and>
         (\<forall>body. deployment_body name img labels port replicas env_vars resources = Inr body \<longrightarrow>
            metadata_name body = name \<and> spec_replicas body = replicas \<and>
            map container_image (template_containers body) = [img] \<and>
            map container_env (template_containers body)
              = [case env_vars of None \<Rightarrow> [] | Some d \<Rightarrow> d] \<and>
            map (Inr \<circ> container_resources) (template_containers body)
              = [V1ResourceRequirements_init (case resources of None \<Rightarrow> [] | Some d \<Rightarrow> d)] \<and>
            (\<exists>rest. calls w' = calls w @ read_namespaced_deployment name (namespace m) # rest) \<and>
            (r1 = Inl (ApiException 404) \<longrightarrow>
               calls w' = calls w @ [read_namespaced_deployment name (namespace m),
                                     create_namespaced_deployment (namespace m) body] \<and>
               r = returned (fst (api E (create_namespaced_deployment (namespace m) body) (cluster w1)))) \<and>
            (\<forall>existing. r1 = Inr existing \<longrightarrow>
               (\<exists>rest. calls w' = calls w @ read_namespaced_deployment name (namespace m) #
                                     patch_namespaced_deployment name (namespace m) body # rest) \<and>
               (\<forall>v. fst (api E (patch_namespaced_deployment name (namespace m) body) (cluster w1)) = Inr v \<longrightarrow>
                  r = Inr () \<and>
                  calls w' = calls w @ [read_namespaced_deployment name (namespace m),
                                        patch_namespaced_deployment name (namespace m) body])))"
proof (intro conjI allI impI)
  fix e assume "deployment_body name img labels port replicas env_vars resources = Inl e"
  then show "r = Inl e" and "w' = w" using run by (simp_all add: create_deployment_def)
next
  fix body assume bd: "deployment_body name img labels port replicas env_vars resources = Inr body"
  let ?rd = "read_namespaced_deployment name (namespace m)"
  let ?pt = "patch_namespaced_deployment name (namespace m) body"
  let ?cr = "create_namespaced_deployment (namespace m) body"
  let ?lc = "w1\<lparr>logs := logs w1 @ [(INFO, ''Creating deployment %s'', [Str name])]\<rparr>"
  let ?lp = "w1\<lparr>logs := logs w1 @ [(INFO, ''Patching existing deployment %s'', [Str name])]\<rparr>"
  have c1: "calls w1 = calls w @ [?rd]" using calls_remote[OF rd] .
  have 2: "calls w' = calls w @ [?rd, ?cr] \<and> r = returned (fst (api E ?cr (cluster w1)))"
    if nf: "r1 = Inl (ApiException 404)"
  proof -
    obtain r2 w2 where cr: "remote E ?cr ?lc = (r2, w2)" by (cases "remote E ?cr ?lc")
    have "create_deployment E m name img labels port replicas env_vars resources w = (returned r2, w2)"
      using rd nf cr bd by (simp add: create_deployment_def create_deployment_except_404)
    with run have "r = returned r2" "w' = w2" by simp_all
    then show ?thesis using calls_remote[OF cr] remote_reply[OF cr] c1 by simp
  qed
  have 3: "(\<exists>rest. calls w' = calls w @ ?rd # ?pt # rest) \<and>
           (\<forall>v. fst (api E ?pt (cluster w1)) = Inr v \<longrightarrow> r = Inr () \<and> calls w' = calls w @ [?rd, ?pt])"
    if ex: "r1 = Inr existing" for existing
  proof -
    obtain r2 w2 where pt: "remote E ?pt ?lp = (r2, w2)" by (cases "remote E ?pt ?lp")
    have c2: "calls w2 = calls w @ [?rd, ?pt]" using calls_remote[OF pt] c1 by simp
    have rp: "r2 = fst (api E ?pt (cluster w1))" using remote_reply[OF pt] by simp
    show ?thesis
    proof (cases r2)
      case (Inr v)
      then have "create_deployment E m name img labels port replicas env_vars resources w = (Inr (), w2)"
        using rd ex pt bd by (simp add: create_deployment_def log_accepted)
      with run have "r = Inr ()" "w' = w2" by simp_all
      then show ?thesis using c2 by simp
    next
      case (Inl e)
      then have "create_deployment E m name img labels port replicas env_vars resources w
                   = create_deployment_except E m name body e w2"
        using rd ex pt bd by (simp add: create_deployment_def log_accepted)
      with run have "create_deployment_except E m name body e w2 = (r, w')" by simp
      from create_deployment_except_calls[OF this] obtain rest where "calls w' = calls w2 @ rest" by blast
      then have "calls w' = calls w @ ?rd # ?pt # rest" using c2 by simp
      then show ?thesis using Inl rp by auto
    qed
  qed
  have 1: "\<exists>rest. calls w' = calls w @ ?rd # rest"
  proof (cases r1)
    case (Inr existing)
    from 3[OF this] show ?thesis by blast
  next
    case (Inl e)
    then have "create_deployment_except E m name body e w1 = (r, w')"
      using rd run bd by (simp add: create_deployment_def)
    from create_deployment_except_calls[OF this] obtain rest where "calls w' = calls w1 @ rest" by blast
    then show ?thesis using c1 by simp
  qed
  from deployment_body_fields[OF bd]
  show "metadata_name body = name" "spec_replicas body = replicas"
    "map container_image (template_containers body) = [img]"
    "map container_env (template_containers body) = [case env_vars of None \<Rightarrow> [] | Some d \<Rightarrow> d]"
    "map (Inr \<circ> container_resources) (template_containers body)
       = [V1ResourceRequirements_init (case resources of None \<Rightarrow> [] | Some d \<Rightarrow> d)]"
    by blast+
  show "\<exists>rest. calls w' = calls w @ ?rd # rest" by (rule 1)
  {
    assume "r1 = Inl (ApiException 404)"
    from 2[OF this] show "calls w' = calls w @ [?rd, ?cr]"
      and "r = returned (fst (api E ?cr (cluster w1)))" by blast+
  }
  {
    fix existing assume ex: "r1 = Inr existing"
    from 3[OF ex] show "\<exists>rest. calls w' = calls w @ ?rd # ?pt # rest" by blast
    fix v assume "fst (api E ?pt (cluster w1)) = Inr v"
    with 3[OF ex] show "r = Inr ()" and "calls w' = calls w @ [?rd, ?pt]" by blast+
  }
qed

theorem reconcile_read_then_write_witness:
  "fst (create_deployment remembering \<lparr>namespace = ''default'', kubeconfig = None\<rparr>
          ''demo'' ''x'' [(''app'', ''demo'')] None 1 None None (fresh False)) = Inr () \<and>
   calls (snd (create_deployment remembering \<lparr>namespace = ''default'', kubeconfig = None\<rparr>
          ''demo'' ''x'' [(''app'', ''demo'')] None 1 None None (fresh False)))
     = [read_namespaced_deployment ''demo'' ''default'',
        create_namespaced_deployment ''default''
          (projr (deployment_body ''demo'' ''x'' [(''app'', ''demo'')] None 1 None None))] \<and>
   fst (create_deployment remembering \<lparr>namespace = ''default'', kubeconfig = None\<rparr>
          ''demo'' ''x'' [(''app'', ''demo'')] None 1 None None
          (snd (create_deployment remembering \<lparr>namespace = ''default'', kubeconfig = None\<rparr>
             ''demo'' ''x'' [(''app'', ''demo'')] None 1 None None (fresh False)))) = Inr () \<and>
   calls (snd (create_deployment remembering \<lparr>namespace = ''default'', kubeconfig = None\<rparr>
          ''demo'' ''x'' [(''app'', ''demo'')] None 1 None None
          (snd (create_deployment remembering \<lparr>namespace = ''default'', kubeconfig = None\<rparr>
             ''demo'' ''x'' [(''app'', ''demo'')] None 1 None None (fresh False)))))
     = [read_namespaced_deployment ''demo'' ''default'',
        create_namespaced_deployment ''default''
          (projr (deployment_body ''demo'' ''x'' [(''app'', ''demo'')] None 1 None None)),
        read_namespaced_deployment ''demo'' ''default'',
        patch_namespaced_deployment ''demo'' ''default''
          (projr (deployment_body ''demo'' ''x'' [(''app'', ''demo'')] None 1 None None))]"
proof -
  let ?m = "\<lparr>namespace = ''default'', kubeconfig = None\<rparr>"
  let ?B = "\<lparr>api_version = ''apps/v1'', kind = ''Deployment'',
             metadata_name = ''demo'', metadata_labels = [(''app'', ''demo'')],
             spec_replicas = 1, template_labels = [(''app'', ''demo'')],
             template_containers =
               [\<lparr>container_name = ''demo'', container_image = ''x'', container_env = [],
                 container_resources = \<lparr>claims = None, limits = None, requests = None\<rparr>,
                 container_ports = None\<rparr>],
             template_restart_policy = ''Always'',
             selector_match_labels = [(''app'', ''demo'')]\<rparr>"
  let ?rd = "read_namespaced_deployment ''demo'' ''default''"
  let ?W1 = "\<lparr>cluster = True, time_now = 0, calls = [?rd, create_namespaced_deployment ''default'' ?B],
              logs = [(INFO, ''Creating deployment %s'', [Str ''demo''])]\<rparr>"
  let ?run = "\<lambda>w. create_deployment remembering ?m ''demo'' ''x'' [(''app'', ''demo'')] None 1 None None w"
  have bd: "deployment_body ''demo'' ''x'' [(''app'', ''demo'')] None 1 None None = Inr ?B"
    by (simp add: deployment_body_def V1ResourceRequirements_init_def)
  have first: "?run (fresh False) = (Inr (), ?W1)"
    by (simp add: create_deployment_def bd create_deployment_except_def remote_def remembering_def
        fresh_def log_accepted returned_def)
  have rd: "remote remembering (read_namespaced_deployment ''demo'' (namespace ?m)) ?W1
              = (Inr [], ?W1\<lparr>calls := calls ?W1 @ [read_namespaced_deployment ''demo'' (namespace ?m)]\<rparr>)"
    by (simp add: remote_def remembering_def)
  have run2: "?run ?W1 = (fst (?run ?W1), snd (?run ?W1))" by simp
  from reconcile_read_then_write[OF run2 rd] bd
  have "fst (?run ?W1) = Inr () \<and>
        calls (snd (?run ?W1)) = calls ?W1 @ [?rd, patch_namespaced_deployment ''demo'' ''default'' ?B]"
    by (simp add: remembering_def)
  then show ?thesis using first bd by simp
qed

text \<open>
  The claim C5 as stated fails: for a spec whose resources are \<open>{"cpu": "100m"}\<close>,
  \<open>create_deployment\<close> raises \<open>TypeError\<close> while building the body and issues no read
  (no remote call at all).
\<close>

theorem reconcile_raises_before_read:
  "create_deployment (accepting 0) \<lparr>namespace = ''default'', kubeconfig = None\<rparr>
      ''demo'' ''x'' [(''app'', ''demo'')] None 1 None (Some [(''cpu'', Quantity ''100m'')]) (fresh ())
     = (Inl (TypeError ''__init__() got an unexpected keyword argument cpu''), fresh ()) \<and>
   calls (fresh ()) = ([] :: api_call list)"
  by (simp add: create_deployment_def deployment_body_def V1ResourceRequirements_init_def fresh_def)

lemma scan_none_ready:
  "\<not> list_ex reports_ready pods \<Longrightarrow> list_all (\<lambda>p. pod_status p \<noteq> None) pods \<Longrightarrow>
   scan pods = NoneReady"
  by (induction pods) (auto simp: reports_ready_def Let_def split: option.splits)

lemma remote_time_upper:
  "remote E c w = (r, w') \<Longrightarrow> latency E c (cluster w) \<le> L \<Longrightarrow> 0 \<le> L \<Longrightarrow>
   time_now w' \<le> time_now w + L"
  by (auto simp: remote_def split: prod.splits)

lemma sleep_for_time_upper:
  "oversleep E (time_now w) \<le> S \<Longrightarrow> 0 \<le> S \<Longrightarrow> time_now (sleep_for E d w) \<le> time_now w + d + S"
  by (simp add: sleep_for_def)

lemma poll_once_never:
  assumes never: "\<forall>cl. \<exists>pods. fst (api E (list_namespaced_pod (k8s_namespace a) (label_selector (k8s_labels a))) cl) = Inr pods
                    \<and> \<not> list_ex reports_ready pods \<and> list_all (\<lambda>p. pod_status p \<noteq> None) pods"
    and L: "\<forall>c cl. latency E c cl \<le> L" "0 \<le> L" and S: "\<forall>t. oversleep E t \<le> S" "0 \<le> S"
  shows "\<exists>w1. poll_once E a w = Again w1 \<and> time_now w1 \<le> time_now w + 2 + L + S"
proof -
  let ?c = "list_namespaced_pod (k8s_namespace a) (label_selector (k8s_labels a))"
  obtain r w0 where rm: "remote E ?c w = (r, w0)" by (cases "remote E ?c w")
  have t0: "time_now w0 \<le> time_now w + L" using remote_time_upper[OF rm] L by blast
  have sl: "time_now (sleep_for E 2 w0) \<le> time_now w0 + 2 + S"
    using sleep_for_time_upper[of E w0 S 2] S by blast
  from never obtain pods where "fst (api E ?c (cluster w)) = Inr pods"
    and nr: "\<not> list_ex reports_ready pods" and st: "list_all (\<lambda>p. pod_status p \<noteq> None) pods"
    by blast
  then have r: "r = Inr pods" using remote_reply[OF rm] by simp
  have "poll_once E a w = Again (sleep_for E 2 w0)"
    using rm r scan_none_ready[OF nr st] by (simp add: poll_once_def)
  moreover have "time_now (sleep_for E 2 w0) \<le> time_now w + 2 + L + S" using sl t0 by linarith
  ultimately show ?thesis by blast
qed

lemma wait_loop_times_out:
  "\<forall>cl. \<exists>pods. fst (api E (list_namespaced_pod (k8s_namespace a) (label_selector (k8s_labels a))) cl) = Inr pods
                    \<and> \<not> list_ex reports_ready pods \<and> list_all (\<lambda>p. pod_status p \<noteq> None) pods \<Longrightarrow>
   \<forall>c cl. latency E c cl \<le> L \<Longrightarrow> 0 \<le> L \<Longrightarrow> \<forall>t. oversleep E t \<le> S \<Longrightarrow> 0 \<le> S \<Longrightarrow>
   time_now w - start \<le> timeout + 2 + L + S \<Longrightarrow>
   wait_loop E a timeout start w = (r, w') \<Longrightarrow>
   r = Inl (TimeoutError ''Timed out waiting for pod to become ready'') \<and>
   timeout < time_now w' - start \<and> time_now w' - start \<le> timeout + 2 + L + S"
proof (induction E a timeout start w rule: wait_loop.induct)
  case (1 E a timeout_seconds start w)
  show ?case
  proof (cases "time_now w - start > timeout_seconds")
    case True
    then show ?thesis using "1.prems" by simp
  next
    case False
    from poll_once_never[OF "1.prems"(1-5), of w]
    obtain w1 where p: "poll_once E a w = Again w1" and t: "time_now w1 \<le> time_now w + 2 + L + S"
      by blast
    have bound: "time_now w1 - start \<le> timeout_seconds + 2 + L + S" using t False by linarith
    have "wait_loop E a timeout_seconds start w1 = (r, w')"
      using "1.prems"(7) False p by simp
    from "1.IH"[OF False p "1.prems"(1-5) bound this] show ?thesis .
  qed
qed

lemma ensure_k8s_manager_keeps:
  "ensure_k8s_manager E a = Inr (a1, m) \<Longrightarrow>
   a1 = a\<lparr>k8s_manager := Some m\<rparr> \<and> k8s_manager a1 = Some m"
  by (auto simp: ensure_k8s_manager_def split: option.splits sum.splits)

text \<open>
  C4, as the code has it. Suppose every listing returns, no listed pod ever reports ready
  and every listed pod has a status, the manager is there or can be built, the timeout
  is not negative, a remote call takes at most \<open>L\<close> and a sleep oversleeps by at most
  \<open>S\<close>. Then \<open>_wait_for_pod_ready\<close> raises \<open>TimeoutError\<close>, later than \<open>timeout\<close> after
  the call began and no later than \<open>timeout + 2 + L + S\<close>; the bound is
  \<open>timeout + 2\<close>, the poll interval, when listing takes no time and sleeps are exact.
\<close>

theorem wait_ready_times_out:
  assumes mgr: "k8s_manager a \<noteq> None \<or> client_ok E"
    and never: "\<forall>cl. \<exists>pods. fst (api E (list_namespaced_pod (k8s_namespace a) (label_selector (k8s_labels a))) cl) = Inr pods
                    \<and> \<not> list_ex reports_ready pods \<and> list_all (\<lambda>p. pod_status p \<noteq> None) pods"
    and t0: "0 \<le> timeout"
    and L: "\<forall>c cl. latency E c cl \<le> L" "0 \<le> L" and S: "\<forall>t. oversleep E t \<le> S" "0 \<le> S"
  shows "fst (wait_for_pod_ready E timeout a w)
           = Inl (TimeoutError ''Timed out waiting for pod to become ready'') \<and>
         timeout < time_now (snd (snd (wait_for_pod_ready E timeout a w))) - time_now w \<and>
         time_now (snd (snd (wait_for_pod_ready E timeout a w))) - time_now w \<le> timeout + 2 + L + S"
proof -
  have "\<exists>a1 m. ensure_k8s_manager E a = Inr (a1, m)"
  proof (cases "k8s_manager a")
    case None
    then show ?thesis using mgr by (simp add: ensure_k8s_manager_def KubernetesManager_init_def)
  next
    case (Some m)
    then show ?thesis by (simp add: ensure_k8s_manager_def)
  qed
  then obtain a1 m where en: "ensure_k8s_manager E a = Inr (a1, m)" by blast
  from ensure_k8s_manager_keeps[OF en]
  have same: "k8s_namespace a1 = k8s_namespace a" "k8s_labels a1 = k8s_labels a"
    by (cases a, simp)+
  obtain r w' where wl: "wait_loop E a1 timeout (time_now w) w = (r, w')"
    by (cases "wait_loop E a1 timeout (time_now w) w")
  have start: "time_now w - time_now w \<le> timeout + 2 + L + S" using t0 L(2) S(2) by simp
  from wait_loop_times_out[OF never[folded same] L S start wl]
  show ?thesis using en wl by (simp add: wait_for_pod_ready_def)
qed

theorem wait_ready_times_out_witness:
  "fst (wait_for_pod_ready (accepting 0) 5 demo_agent (fresh ()))
     = Inl (TimeoutError ''Timed out waiting for pod to become ready'') \<and>
   time_now (snd (snd (wait_for_pod_ready (accepting 0) 5 demo_agent (fresh ())))) = 6 \<and>
   calls (snd (snd (wait_for_pod_ready (accepting 0) 5 demo_agent (fresh ()))))
     = replicate 3 (list_namespaced_pod ''default'' ''app=mcp-agent-k8s-demo-agent'')"
proof -
  let ?E = "accepting 0"
  have run: "wait_for_pod_ready ?E 5 demo_agent (fresh ()) =
    (Inl (TimeoutError ''Timed out waiting for pod to become ready''),
     demo_agent\<lparr>k8s_manager := Some \<lparr>namespace = ''default'', kubeconfig = None\<rparr>\<rparr>,
     \<lparr>cluster = (), time_now = 6,
      calls = replicate 3 (list_namespaced_pod ''default'' ''app=mcp-agent-k8s-demo-agent''),
      logs = []\<rparr>)"
    by (simp add: wait_for_pod_ready_def ensure_k8s_manager_def KubernetesManager_init_def
        demo_agent_simp accepting_def fresh_def poll_once_def remote_def sleep_for_def
        label_selector_def numeral_3_eq_3)
  have "fst (wait_for_pod_ready ?E 5 demo_agent (fresh ()))
           = Inl (TimeoutError ''Timed out waiting for pod to become ready'') \<and>
        5 < time_now (snd (snd (wait_for_pod_ready ?E 5 demo_agent (fresh ())))) - time_now (fresh ()) \<and>
        time_now (snd (snd (wait_for_pod_ready ?E 5 demo_agent (fresh ())))) - time_now (fresh ()) \<le> 5 + 2 + 0 + 0"
    by (rule wait_ready_times_out) (simp_all add: accepting_def)
  then show ?thesis using run by simp
qed

text \<open>
  The claim C4 as stated fails: with a timeout of 5 and listing calls that take 3 each,
  the deadline is checked at 0, 5 and 10, and \<open>TimeoutError\<close> is raised 10 after the call
  began, later than \<open>timeout + 2\<close>.
\<close>

theorem wait_ready_late_with_slow_listing:
  "fst (wait_for_pod_ready (accepting 3) 5 demo_agent (fresh ()))
     = Inl (TimeoutError ''Timed out waiting for pod to become ready'') \<and>
   time_now (snd (snd (wait_for_pod_ready (accepting 3) 5 demo_agent (fresh ())))) - time_now (fresh ())
     = 10 \<and>
   \<not> time_now (snd (snd (wait_for_pod_ready (accepting 3) 5 demo_agent (fresh ())))) - time_now (fresh ())
       \<le> 5 + 2"
proof -
  have run: "wait_for_pod_ready (accepting 3) 5 demo_agent (fresh ()) =
    (Inl (TimeoutError ''Timed out waiting for pod to become ready''),
     demo_agent\<lparr>k8s_manager := Some \<lparr>namespace = ''default'', kubeconfig = None\<rparr>\<rparr>,
     \<lparr>cluster = (), time_now = 10,
      calls = replicate 2 (list_namespaced_pod ''default'' ''app=mcp-agent-k8s-demo-agent''),
      logs = []\<rparr>)"
    by (simp add: wait_for_pod_ready_def ensure_k8s_manager_def KubernetesManager_init_def
        demo_agent_simp accepting_def fresh_def poll_once_def remote_def sleep_for_def
        label_selector_def numeral_2_eq_2)
  show ?thesis unfolding run by (simp add: fresh_def)
qed

lemma wait_for_pod_ready_agent:
  "wait_for_pod_ready E t a w = (r, a', w') \<Longrightarrow> a' = a \<or> (\<exists>m. a' = a\<lparr>k8s_manager := Some m\<rparr>)"
  by (auto simp: wait_for_pod_ready_def split: sum.splits prod.splits dest!: ensure_k8s_manager_keeps)





end
